theory Spec2Isabelle
  imports Complex_Main "HOL-Library.AList" "HOL-Library.Log_Nat"
begin

section \<open>CryptoUtils (src/crypto-utils.js)\<close>

text \<open>
  The hash primitive \<open>CryptoUtils.sha256\<close> is an external capability (Web Crypto). It is
  a deterministic function from strings to strings, and every definition below takes it as
  its first argument \<open>sha256\<close>. The \<open>async\<close>/\<open>await\<close> of the source only sequence the
  calls; the model is the sequential program.
\<close>

type_synonym hashfn = "string \<Rightarrow> string"

definition generateUserId :: "hashfn \<Rightarrow> string \<Rightarrow> string" where
  "generateUserId sha256 publicKey = sha256 publicKey"

definition combineHashes :: "hashfn \<Rightarrow> string \<Rightarrow> string \<Rightarrow> string" where
  "combineHashes sha256 l r = sha256 (l @ r)"

section \<open>MerkleTree (src/unnamed/part_000)\<close>

text \<open>
  Errors are values. The source throws plain \<open>Error\<close> objects told apart by their message;
  the constructors carry the names of the error taxonomy: \<open>RangeError\<close> for an empty key
  list or a user count outside 2..32, \<open>NotFoundError\<close> for an unknown user or leaf,
  \<open>StateError\<close> for a system that is not initialised, \<open>InvalidArgument\<close> for an absent
  bundle. \<open>TypeError\<close> is what JavaScript itself throws when a property of \<open>null\<close> is
  read.
\<close>

datatype error = RangeError | NotFoundError | StateError | InvalidArgument | TypeError

text \<open>
  Nodes are objects compared by reference (\<open>===\<close>), so the model keeps an explicit heap:
  a node reference is the position of the node in \<open>heap\<close>, \<open>null\<close> is \<open>None\<close>, and
  \<open>new MerkleTreeNode(...)\<close> appends to the heap. Node objects are never written after
  their construction, and every reference the program holds is a reference to a node it
  has made, that is, a position below the length of the heap. \<open>data\<close> is the pair
  \<open>(publicKey, index)\<close> of a leaf.
\<close>

record MerkleTreeNode =
  hash :: string
  left :: "nat option"
  right :: "nat option"
  isLeaf :: bool
  data :: "(string \<times> nat) option"

text \<open>
  The tree object: \<open>root\<close> (named \<open>tree_root\<close> here, \<open>root\<close> being a constant of HOL),
  the array \<open>leaves\<close> and the \<open>Map\<close> \<open>nodes\<close> from hash to node. A JavaScript \<open>Map\<close>
  iterates in the order of first insertion of each key, and \<open>set\<close> on a key already
  present replaces its value in place: that is an association list under \<open>AList.update\<close>.
\<close>

record MerkleTree =
  heap :: "MerkleTreeNode list"
  tree_root :: "nat option"
  leaves :: "nat list"
  nodes :: "(string \<times> nat) list"

definition newMerkleTree :: MerkleTree where
  "newMerkleTree = \<lparr>heap = [], tree_root = None, leaves = [], nodes = []\<rparr>"

definition new_node :: "MerkleTreeNode \<Rightarrow> MerkleTree \<Rightarrow> nat \<times> MerkleTree" where
  "new_node nd t = (length (heap t), t\<lparr>heap := heap t @ [nd]\<rparr>)"

text \<open>The body of the leaf loop of \<open>buildTree\<close> (lines 35-41), and the loop from index \<open>i\<close> on.\<close>

definition addLeaf :: "hashfn \<Rightarrow> string \<Rightarrow> nat \<Rightarrow> MerkleTree \<Rightarrow> MerkleTree" where
  "addLeaf sha256 publicKey i t =
     (let h = generateUserId sha256 publicKey;
          (leaf, t1) = new_node \<lparr>hash = h, left = None, right = None, isLeaf = True,
                                 data = Some (publicKey, i)\<rparr> t
      in t1\<lparr>leaves := leaves t1 @ [leaf], nodes := AList.update h leaf (nodes t1)\<rparr>)"

fun addLeaves :: "hashfn \<Rightarrow> string list \<Rightarrow> nat \<Rightarrow> MerkleTree \<Rightarrow> MerkleTree" where
  "addLeaves sha256 [] i t = t"
| "addLeaves sha256 (k # ks) i t = addLeaves sha256 ks (Suc i) (addLeaf sha256 k i t)"

text \<open>Lines 61-63: an odd level gets its last node pushed once more.\<close>

definition padLevel :: "nat list \<Rightarrow> nat list" where
  "padLevel ns = (if length ns mod 2 = 1 then ns @ [last ns] else ns)"

text \<open>
  The body of the pairing loop (lines 67-73) for one pair, and the loop (lines 66-74) over
  the padded level; the loop returns \<open>nextLevel\<close>. The level has even length when the
  loop runs, so the last equation of \<open>pairUp\<close> is never reached from
  \<open>buildTreeRecursive\<close>.
\<close>

definition addParent :: "hashfn \<Rightarrow> nat \<Rightarrow> nat \<Rightarrow> MerkleTree \<Rightarrow> nat \<times> MerkleTree" where
  "addParent sha256 l r t =
     (let combinedHash = combineHashes sha256 (hash (heap t ! l)) (hash (heap t ! r));
          (parent, t1) = new_node \<lparr>hash = combinedHash, left = Some l, right = Some r,
                                   isLeaf = False, data = None\<rparr> t
      in (parent, t1\<lparr>nodes := AList.update combinedHash parent (nodes t1)\<rparr>))"

fun pairUp :: "hashfn \<Rightarrow> nat list \<Rightarrow> MerkleTree \<Rightarrow> nat list \<times> MerkleTree" where
  "pairUp sha256 (l # r # rest) t =
     (let (parent, t1) = addParent sha256 l r t;
          (nextLevel, t2) = pairUp sha256 rest t1
      in (parent # nextLevel, t2))"
| "pairUp sha256 ns t = ([], t)"

text \<open>
  \<open>_buildTreeRecursive\<close>. The array \<open>nodes\<close> is passed by reference and \<open>push\<close> writes
  into it, so the model returns, next to the root, the contents of the argument array as
  the call leaves it. On an empty array the source recurses forever (an empty level
  yields an empty next level); this is the value \<open>None\<close>.
\<close>

partial_function (option) buildTreeRecursive ::
  "hashfn \<Rightarrow> nat list \<Rightarrow> MerkleTree \<Rightarrow> (nat \<times> nat list \<times> MerkleTree) option" where
  "buildTreeRecursive sha256 ns t =
     (if length ns = 1 then Some (ns ! 0, ns, t)
      else (case pairUp sha256 (padLevel ns) t of
              (nextLevel, t1) \<Rightarrow>
                Option.bind (buildTreeRecursive sha256 nextLevel t1)
                  (\<lambda>(r, _, t2). Some (r, padLevel ns, t2))))"

declare buildTreeRecursive.simps [code]

text \<open>
  \<open>buildTree\<close>. The call at line 45 passes \<open>this.leaves\<close> itself, so what the recursion
  pushed into its argument is pushed into \<open>this.leaves\<close>.
\<close>

definition buildTree ::
  "hashfn \<Rightarrow> string list \<Rightarrow> MerkleTree \<Rightarrow> (error + MerkleTree) option" where
  "buildTree sha256 publicKeys t =
     (if length publicKeys = 0 then Some (Inl RangeError)
      else
        (let t1 = addLeaves sha256 publicKeys 0 (t\<lparr>leaves := []\<rparr>)
         in Option.bind (buildTreeRecursive sha256 (leaves t1) t1)
              (\<lambda>(r, lv, t2). Some (Inr (t2\<lparr>leaves := lv, tree_root := Some r\<rparr>)))))"

definition getRootHash :: "MerkleTree \<Rightarrow> string option" where
  "getRootHash t = (case tree_root t of None \<Rightarrow> None | Some r \<Rightarrow> Some (hash (heap t ! r)))"

text \<open>
  \<open>_findParent\<close>: the first entry of the map, in iteration order, whose node has the given
  node as left or right child and is not a leaf.
\<close>

definition findParent :: "MerkleTree \<Rightarrow> nat \<Rightarrow> nat option" where
  "findParent t node =
     map_option snd
       (find (\<lambda>(h, n). (left (heap t ! n) = Some node \<or> right (heap t ! n) = Some node)
                        \<and> \<not> isLeaf (heap t ! n))
             (nodes t))"

text \<open>
  A step of a proof path and the proof object. The field \<open>hash\<close> of a step is named
  \<open>sibling_hash\<close> here, since \<open>hash\<close> is the field of a node. \<open>rootHash\<close> is \<open>None\<close> when
  \<open>getRootHash\<close> returned \<open>null\<close>.
\<close>

record PathStep =
  sibling_hash :: string
  isLeft :: bool
  level :: nat

record MembershipProof =
  leafHash :: string
  leafIndex :: nat
  path :: "PathStep list"
  rootHash :: "string option"

text \<open>
  The \<open>while\<close> loop of \<open>generateMembershipProof\<close> (lines 111-127); \<open>None\<close> is a loop that
  never ends. Reading \<open>sibling.hash\<close> of a missing child throws.
\<close>

partial_function (option) walkToRoot ::
  "MerkleTree \<Rightarrow> nat \<Rightarrow> PathStep list \<Rightarrow> (error + PathStep list) option" where
  "walkToRoot t currentNode pth =
     (if Some currentNode = tree_root t then Some (Inr pth)
      else (case findParent t currentNode of
              None \<Rightarrow> Some (Inr pth)
            | Some parent \<Rightarrow>
                (let isLeftChild = (left (heap t ! parent) = Some currentNode);
                     sibling = (if isLeftChild then right (heap t ! parent)
                                else left (heap t ! parent))
                 in (case sibling of
                       None \<Rightarrow> Some (Inl TypeError)
                     | Some s \<Rightarrow>
                         walkToRoot t parent
                           (pth @ [\<lparr>sibling_hash = hash (heap t ! s),
                                    isLeft = \<not> isLeftChild,
                                    level = length pth\<rparr>])))))"

declare walkToRoot.simps [code]

definition generateMembershipProof ::
  "hashfn \<Rightarrow> MerkleTree \<Rightarrow> string \<Rightarrow> (error + MembershipProof) option" where
  "generateMembershipProof sha256 t publicKey =
     (let userHash = generateUserId sha256 publicKey
      in (case find (\<lambda>l. hash (heap t ! l) = userHash) (leaves t) of
            None \<Rightarrow> Some (Inl NotFoundError)
          | Some leaf \<Rightarrow>
              (case data (heap t ! leaf) of
                 None \<Rightarrow> Some (Inl TypeError)
               | Some (pk, idx) \<Rightarrow>
                   Option.bind (walkToRoot t leaf [])
                     (\<lambda>res. case res of
                        Inl e \<Rightarrow> Some (Inl e)
                      | Inr pth \<Rightarrow>
                          Some (Inr \<lparr>leafHash = userHash, leafIndex = idx, path = pth,
                                     rootHash = getRootHash t\<rparr>)))))"

text \<open>\<open>verifyMembershipProof\<close>: the fold over the path, then the comparison with the root.\<close>

definition combineStep :: "hashfn \<Rightarrow> string \<Rightarrow> PathStep \<Rightarrow> string" where
  "combineStep sha256 currentHash step =
     (if isLeft step then combineHashes sha256 (sibling_hash step) currentHash
      else combineHashes sha256 currentHash (sibling_hash step))"

fun foldPath :: "hashfn \<Rightarrow> string \<Rightarrow> PathStep list \<Rightarrow> string" where
  "foldPath sha256 currentHash [] = currentHash"
| "foldPath sha256 currentHash (step # steps) =
     foldPath sha256 (combineStep sha256 currentHash step) steps"

definition verifyMembershipProof :: "hashfn \<Rightarrow> MembershipProof \<Rightarrow> bool" where
  "verifyMembershipProof sha256 prf =
     (Some (foldPath sha256 (leafHash prf) (path prf)) = rootHash prf)"

text \<open>\<open>_calculateHeight\<close> and \<open>getTreeStats\<close>.\<close>

partial_function (option) calculateHeight :: "MerkleTree \<Rightarrow> nat option \<Rightarrow> nat option" where
  "calculateHeight t node =
     (case node of
        None \<Rightarrow> Some 1
      | Some a \<Rightarrow>
          if isLeaf (heap t ! a) then Some 1
          else Option.bind
                 (case left (heap t ! a) of
                    None \<Rightarrow> Some 0
                  | Some l \<Rightarrow> calculateHeight t (Some l))
                 (\<lambda>leftHeight.
                    Option.bind
                      (case right (heap t ! a) of
                         None \<Rightarrow> Some 0
                       | Some r \<Rightarrow> calculateHeight t (Some r))
                      (\<lambda>rightHeight. Some (1 + max leftHeight rightHeight))))"

declare calculateHeight.simps [code]

record TreeStats =
  totalNodes :: nat
  leafNodes :: nat
  treeHeight :: nat
  stats_rootHash :: "string option"

definition getTreeStats :: "MerkleTree \<Rightarrow> TreeStats option" where
  "getTreeStats t =
     (case tree_root t of
        None \<Rightarrow> Some \<lparr>totalNodes = 0, leafNodes = 0, treeHeight = 0, stats_rootHash = None\<rparr>
      | Some r \<Rightarrow>
          Option.bind (calculateHeight t (Some r))
            (\<lambda>h. Some \<lparr>totalNodes = length (nodes t), leafNodes = length (leaves t),
                        treeHeight = h, stats_rootHash = getRootHash t\<rparr>))"

section \<open>ZKProofSystem (src/zk-proof.js)\<close>

text \<open>
  The wall clock (\<open>Date.now()\<close>, milliseconds as an integer) and the random source
  (\<open>crypto.getRandomValues\<close>) are external. A function reads them from its arguments:
  \<open>now\<close> or \<open>clock\<close> (the successive readings of the clock during one call),
  \<open>generatePublicKey i\<close> (the key drawn by the \<open>i\<close>-th call) and \<open>salt\<close> (the value
  \<open>generateSalt\<close> returns).
\<close>

text \<open>
  The objects of the protocol. Fields that several objects of the source name alike carry
  the name of their object here: \<open>commitment_hash\<close>, \<open>response_hash\<close>, \<open>response_data\<close>,
  the three timestamps, and \<open>proof_userIndex\<close> for \<open>userIndex\<close> of a bundle.
\<close>

record UserData =
  publicKey :: string
  userId :: string
  userIndex :: nat

record Commitment =
  commitment_hash :: string
  randomness :: string
  commitment_timestamp :: int

record Response =
  response_hash :: string
  response_data :: string
  response_timestamp :: int

record ZKProof =
  commitment :: Commitment
  challenge :: string
  response :: Response
  membershipProof :: MembershipProof
  timestamp :: int
  proof_userIndex :: nat

record ZKProofSystem =
  merkleTree :: "MerkleTree option"
  userKeys :: "(nat \<times> UserData) list"
  currentProof :: "ZKProof option"

definition newZKProofSystem :: ZKProofSystem where
  "newZKProofSystem = \<lparr>merkleTree = None, userKeys = [], currentProof = None\<rparr>"

definition truncateHash :: "string \<Rightarrow> nat \<Rightarrow> string" where
  "truncateHash h n = take n h @ ''...''"

record UserPreview =
  preview_index :: nat
  preview_userId :: string
  publicKeyPreview :: string

text \<open>
  The argument of \<open>initializeSystem\<close> is a JavaScript number. The caller passes
  \<open>parseInt\<close> of a text field (src/app.js, line 42), which is an integer or \<open>NaN\<close>;
  \<open>undefined\<close> compares as \<open>NaN\<close> does. Every comparison with \<open>NaN\<close> is false, so the
  two tests of the range check fail on it and the loop \<open>i < userCount\<close> does not run.
  Numbers with a fraction are left out.
\<close>

datatype jsnumber = Num int | NaN

fun num_less :: "jsnumber \<Rightarrow> int \<Rightarrow> bool" where
  "num_less (Num a) b = (a < b)"
| "num_less NaN b = False"

fun num_greater :: "jsnumber \<Rightarrow> int \<Rightarrow> bool" where
  "num_greater (Num a) b = (a > b)"
| "num_greater NaN b = False"

text \<open>How often the loop \<open>for (let i = 0; i < userCount; i++)\<close> runs.\<close>

fun loopCount :: "jsnumber \<Rightarrow> nat" where
  "loopCount (Num a) = nat a"
| "loopCount NaN = 0"

record InitResult =
  result_userCount :: jsnumber
  result_rootHash :: "string option"
  treeStats :: TreeStats
  users :: "UserPreview list"

text \<open>The body of the loop of \<open>initializeSystem\<close> (lines 27-35) for user \<open>i\<close>.\<close>

definition registerUser ::
  "hashfn \<Rightarrow> (nat \<Rightarrow> string) \<Rightarrow> string list \<times> (nat \<times> UserData) list \<Rightarrow> nat \<Rightarrow>
   string list \<times> (nat \<times> UserData) list" where
  "registerUser sha256 generatePublicKey acc i =
     (let pk = generatePublicKey i;
          uid = generateUserId sha256 pk
      in (fst acc @ [pk],
          AList.update i \<lparr>publicKey = pk, userId = uid, userIndex = i\<rparr> (snd acc)))"

text \<open>
  \<open>initializeSystem\<close>. The result is the value returned or the error thrown, and the state
  of the system after the call. The user map is cleared and filled (lines 24-36) and the
  new tree is stored (line 39) before \<open>buildTree\<close> runs (line 40), so an error thrown by
  \<open>buildTree\<close> leaves both writes behind.
\<close>

definition initializeSystem ::
  "hashfn \<Rightarrow> (nat \<Rightarrow> string) \<Rightarrow> jsnumber \<Rightarrow> ZKProofSystem \<Rightarrow>
   ((error + InitResult) \<times> ZKProofSystem) option" where
  "initializeSystem sha256 generatePublicKey userCount s =
     (if num_less userCount 2 \<or> num_greater userCount 32 then Some (Inl RangeError, s)
      else
        (let (publicKeys, keys) =
               foldl (registerUser sha256 generatePublicKey) ([], [])
                 [0 ..< loopCount userCount];
             s1 = s\<lparr>userKeys := keys, merkleTree := Some newMerkleTree\<rparr>
         in Option.bind (buildTree sha256 publicKeys newMerkleTree)
              (\<lambda>built. case built of
                 Inl e \<Rightarrow> Some (Inl e, s1)
               | Inr t \<Rightarrow>
                   Option.bind (getTreeStats t)
                     (\<lambda>stats.
                        Some (Inr \<lparr>result_userCount = userCount,
                                   result_rootHash = getRootHash t,
                                   treeStats = stats,
                                   users = map (\<lambda>(i, d).
                                             \<lparr>preview_index = i,
                                              preview_userId = truncateHash (userId d) 8,
                                              publicKeyPreview = truncateHash (publicKey d) 8\<rparr>)
                                           keys\<rparr>,
                              s1\<lparr>merkleTree := Some t\<rparr>)))))"

definition generateCommitment :: "hashfn \<Rightarrow> string \<Rightarrow> int \<Rightarrow> string \<Rightarrow> Commitment" where
  "generateCommitment sha256 salt now pk =
     \<lparr>commitment_hash = sha256 (pk @ salt), randomness = salt, commitment_timestamp = now\<rparr>"

text \<open>String concatenation of JavaScript writes \<open>null\<close> as the text \<open>null\<close>.\<close>

definition jsString :: "string option \<Rightarrow> string" where
  "jsString v = (case v of None \<Rightarrow> ''null'' | Some x \<Rightarrow> x)"

definition generateChallenge :: "hashfn \<Rightarrow> Commitment \<Rightarrow> MembershipProof \<Rightarrow> string" where
  "generateChallenge sha256 c mp =
     sha256 (commitment_hash c @ jsString (rootHash mp) @ leafHash mp)"

definition generateResponse :: "hashfn \<Rightarrow> int \<Rightarrow> string \<Rightarrow> string \<Rightarrow> Commitment \<Rightarrow> Response" where
  "generateResponse sha256 now pk chal c =
     (let responseData = randomness c @ chal
      in \<lparr>response_hash = sha256 responseData, response_data = responseData,
          response_timestamp = now\<rparr>)"

record ProofSummary =
  commitmentHash :: string
  challengeHash :: string
  responseHash :: string
  pathLength :: nat
  summary_rootHash :: string

text \<open>
  \<open>generateZKProof\<close>. The bundle is stored in \<open>currentProof\<close> (line 81) before the summary
  is made (lines 92-98). \<open>truncateHash\<close> calls \<open>substring\<close> on its argument, so on a root
  hash that is \<open>null\<close> the summary throws, after the write.
\<close>

definition generateZKProof ::
  "hashfn \<Rightarrow> string \<Rightarrow> (nat \<Rightarrow> int) \<Rightarrow> nat \<Rightarrow> ZKProofSystem \<Rightarrow>
   ((error + ZKProof \<times> ProofSummary) \<times> ZKProofSystem) option" where
  "generateZKProof sha256 salt clock idx s =
     (case merkleTree s of
        None \<Rightarrow> Some (Inl StateError, s)
      | Some tree \<Rightarrow>
          (case map_of (userKeys s) idx of
             None \<Rightarrow> Some (Inl NotFoundError, s)
           | Some userData \<Rightarrow>
               Option.bind (generateMembershipProof sha256 tree (publicKey userData))
                 (\<lambda>res. case res of
                    Inl e \<Rightarrow> Some (Inl e, s)
                  | Inr mp \<Rightarrow>
                      (let c = generateCommitment sha256 salt (clock 0) (publicKey userData);
                           chal = generateChallenge sha256 c mp;
                           resp = generateResponse sha256 (clock 1) (publicKey userData) chal c;
                           prf = \<lparr>commitment = c, challenge = chal, response = resp,
                                  membershipProof = mp, timestamp = clock 2,
                                  proof_userIndex = idx\<rparr>
                       in (case rootHash mp of
                             None \<Rightarrow> Some (Inl TypeError, s\<lparr>currentProof := Some prf\<rparr>)
                           | Some rh \<Rightarrow>
                               Some (Inr (prf,
                                          \<lparr>commitmentHash = truncateHash (commitment_hash c) 8,
                                           challengeHash = truncateHash chal 8,
                                           responseHash = truncateHash (response_hash resp) 8,
                                           pathLength = length (path mp),
                                           summary_rootHash = truncateHash rh 8\<rparr>),
                                     s\<lparr>currentProof := Some prf\<rparr>))))))"

definition verifyResponse :: "hashfn \<Rightarrow> ZKProof \<Rightarrow> bool" where
  "verifyResponse sha256 prf =
     (let expectedResponseData = randomness (commitment prf) @ challenge prf;
          expectedHash = sha256 expectedResponseData
      in expectedHash = response_hash (response prf))"

definition verifyTimestamp :: "int \<Rightarrow> int \<Rightarrow> bool" where
  "verifyTimestamp now ts = (let maxAge = 5 * 60 * 1000 in now - ts \<le> maxAge)"

text \<open>
  The report of \<open>verifyZKProof\<close>. A step carries its name and its result; the text of
  \<open>details\<close> and of \<open>finalResult\<close> is a function of the result and is left out
  (\<open>finalResult\<close> is the flag it prints).
\<close>

datatype stepName = MembershipStep | ChallengeStep | ResponseStep | TimestampStep | ProcessStep

record VerificationStep =
  step :: stepName
  result :: bool

record Summary =
  totalSteps :: nat
  passedSteps :: nat
  finalResult :: bool

record VerificationReport =
  isValid :: bool
  verificationSteps :: "VerificationStep list"
  summary :: Summary

text \<open>
  The \<open>try\<close> block of \<open>verifyZKProof\<close> (lines 168-215): the steps pushed and the flag
  \<open>isValid\<close>, or the fault thrown. The bundle is a typed record, so the one fault left is
  the call of a method of \<open>this.merkleTree\<close> when it is \<open>null\<close>, before any step is
  pushed.
\<close>

definition runVerification ::
  "hashfn \<Rightarrow> int \<Rightarrow> MerkleTree option \<Rightarrow> ZKProof \<Rightarrow> error + VerificationStep list \<times> bool" where
  "runVerification sha256 now tree prf =
     (case tree of
        None \<Rightarrow> Inl TypeError
      | Some _ \<Rightarrow>
          (let membershipValid = verifyMembershipProof sha256 (membershipProof prf);
               steps1 = [\<lparr>step = MembershipStep, result = membershipValid\<rparr>];
               isValid1 = (if \<not> membershipValid then False else True);
               expectedChallenge = generateChallenge sha256 (commitment prf) (membershipProof prf);
               challengeValid = (expectedChallenge = challenge prf);
               steps2 = steps1 @ [\<lparr>step = ChallengeStep, result = challengeValid\<rparr>];
               isValid2 = (if \<not> challengeValid then False else isValid1);
               responseValid = verifyResponse sha256 prf;
               steps3 = steps2 @ [\<lparr>step = ResponseStep, result = responseValid\<rparr>];
               isValid3 = (if \<not> responseValid then False else isValid2);
               timestampValid = verifyTimestamp now (timestamp prf);
               steps4 = steps3 @ [\<lparr>step = TimestampStep, result = timestampValid\<rparr>];
               isValid4 = (if \<not> timestampValid then False else isValid3)
           in Inr (steps4, isValid4)))"

definition verifyZKProof ::
  "hashfn \<Rightarrow> int \<Rightarrow> ZKProofSystem \<Rightarrow> ZKProof option \<Rightarrow> error + VerificationReport" where
  "verifyZKProof sha256 now s bundle =
     (case bundle of
        None \<Rightarrow> Inl InvalidArgument
      | Some prf \<Rightarrow>
          (let (steps, valid) =
                 (case runVerification sha256 now (merkleTree s) prf of
                    Inl e \<Rightarrow> ([\<lparr>step = ProcessStep, result = False\<rparr>], False)
                  | Inr r \<Rightarrow> r)
           in Inr \<lparr>isValid = valid, verificationSteps = steps,
                   summary = \<lparr>totalSteps = length steps,
                              passedSteps = length (filter result steps),
                              finalResult = valid\<rparr>\<rparr>))"

section \<open>Scenarios and sample data\<close>

text \<open>
  \<open>proveAfterBuild\<close> is the scenario of the round trip: build a new tree from a key list,
  then ask it for the membership proof of one key.
\<close>

definition proveAfterBuild ::
  "hashfn \<Rightarrow> string list \<Rightarrow> string \<Rightarrow> (error + MembershipProof) option" where
  "proveAfterBuild sha256 ks k =
     Option.bind (buildTree sha256 ks newMerkleTree)
       (\<lambda>built. case built of
          Inl e \<Rightarrow> Some (Inl e)
        | Inr t \<Rightarrow> generateMembershipProof sha256 t k)"

text \<open>
  A stand-in for the hash primitive at concrete inputs: it is injective, so no collision
  of the examples below comes from the hash.
\<close>

definition sampleHash :: hashfn where
  "sampleHash s = CHR ''h'' # s"

text \<open>The tree built from the keys \<open>a\<close>, \<open>b\<close>, \<open>c\<close> under \<open>sampleHash\<close>.\<close>

definition sampleTree :: MerkleTree where
  "sampleTree =
     \<lparr>heap =
        [\<lparr>hash = ''ha'', left = None, right = None, isLeaf = True, data = Some (''a'', 0)\<rparr>,
         \<lparr>hash = ''hb'', left = None, right = None, isLeaf = True, data = Some (''b'', 1)\<rparr>,
         \<lparr>hash = ''hc'', left = None, right = None, isLeaf = True, data = Some (''c'', 2)\<rparr>,
         \<lparr>hash = ''hhahb'', left = Some 0, right = Some 1, isLeaf = False, data = None\<rparr>,
         \<lparr>hash = ''hhchc'', left = Some 2, right = Some 2, isLeaf = False, data = None\<rparr>,
         \<lparr>hash = ''hhhahbhhchc'', left = Some 3, right = Some 4, isLeaf = False,
            data = None\<rparr>],
      tree_root = Some 5, leaves = [0, 1, 2, 2],
      nodes = [(''ha'', 0), (''hb'', 1), (''hc'', 2), (''hhahb'', 3), (''hhchc'', 4),
               (''hhhahbhhchc'', 5)]\<rparr>"

definition sampleMembershipProof :: MembershipProof where
  "sampleMembershipProof =
     \<lparr>leafHash = ''hb'', leafIndex = 1,
      path = [\<lparr>sibling_hash = ''ha'', isLeft = True, level = 0\<rparr>,
              \<lparr>sibling_hash = ''hhchc'', isLeft = False, level = 1\<rparr>],
      rootHash = Some ''hhhahbhhchc''\<rparr>"

text \<open>
  The bundle \<open>generateZKProof\<close> makes for user 1 of the system below, with salt \<open>r\<close> and the
  clock at 1000, 1001, 1002.
\<close>

definition sampleBundle :: ZKProof where
  "sampleBundle =
     \<lparr>commitment = \<lparr>commitment_hash = ''hbr'', randomness = ''r'', commitment_timestamp = 1000\<rparr>,
      challenge = ''hhbrhhhahbhhchchb'',
      response = \<lparr>response_hash = ''hrhhbrhhhahbhhchchb'', response_data = ''rhhbrhhhahbhhchchb'',
                  response_timestamp = 1001\<rparr>,
      membershipProof = sampleMembershipProof,
      timestamp = 1002, proof_userIndex = 1\<rparr>"

definition sampleSystem :: ZKProofSystem where
  "sampleSystem =
     \<lparr>merkleTree = Some sampleTree,
      userKeys = [(0, \<lparr>publicKey = ''a'', userId = ''ha'', userIndex = 0\<rparr>),
                  (1, \<lparr>publicKey = ''b'', userId = ''hb'', userIndex = 1\<rparr>),
                  (2, \<lparr>publicKey = ''c'', userId = ''hc'', userIndex = 2\<rparr>)],
      currentProof = None\<rparr>"

definition sampleKeyGen :: "nat \<Rightarrow> string" where
  "sampleKeyGen i = [char_of (97 + i)]"

definition sampleClock :: "nat \<Rightarrow> int" where
  "sampleClock i = 1000 + int i"

text \<open>An accepted proof with an empty path: the proof of the one leaf of a one-key tree.\<close>

definition singleLeafProof :: MembershipProof where
  "singleLeafProof = \<lparr>leafHash = ''ha'', leafIndex = 0, path = [], rootHash = Some ''ha''\<rparr>"

section \<open>Predicates of the proofs\<close>

text \<open>
  \<open>is_parent_of hp p c\<close>: the test of \<open>_findParent\<close>, node \<open>p\<close> is not a leaf and has \<open>c\<close> as
  a child. \<open>heap_ok\<close>: every node that is not a leaf has two children made before it, and
  its hash combines theirs, left then right. \<open>internalHashes\<close>: the hashes of the nodes
  that are not leaves, in the order of their making.
\<close>

definition is_parent_of :: "MerkleTreeNode list \<Rightarrow> nat \<Rightarrow> nat \<Rightarrow> bool" where
  "is_parent_of hp p c \<longleftrightarrow>
     (left (hp ! p) = Some c \<or> right (hp ! p) = Some c) \<and> \<not> isLeaf (hp ! p)"

definition heap_ok :: "hashfn \<Rightarrow> MerkleTreeNode list \<Rightarrow> bool" where
  "heap_ok sha256 hp \<longleftrightarrow>
     (\<forall>p < length hp. \<not> isLeaf (hp ! p) \<longrightarrow>
        (\<exists>l r. left (hp ! p) = Some l \<and> right (hp ! p) = Some r \<and> l < p \<and> r < p \<and>
               hash (hp ! p) = sha256 (hash (hp ! l) @ hash (hp ! r))))"

definition internalHashes :: "MerkleTree \<Rightarrow> string list" where
  "internalHashes t = map hash (filter (\<lambda>n. \<not> isLeaf n) (heap t))"

text \<open>
  \<open>map_ok\<close>: the map holds node references only, and when no two nodes that are not leaves
  share a hash, it holds every such node under its hash. \<open>covered t lvl\<close>: every node
  outside the level \<open>lvl\<close> has a parent. \<open>extends t t'\<close>: \<open>t'\<close> is \<open>t\<close> with more nodes,
  none of them a leaf.
\<close>

definition map_ok :: "MerkleTree \<Rightarrow> bool" where
  "map_ok t \<longleftrightarrow>
     (\<forall>(h, n) \<in> set (nodes t). n < length (heap t)) \<and>
     (distinct (internalHashes t) \<longrightarrow>
        (\<forall>p < length (heap t). \<not> isLeaf (heap t ! p) \<longrightarrow>
           (hash (heap t ! p), p) \<in> set (nodes t)))"

definition covered :: "MerkleTree \<Rightarrow> nat list \<Rightarrow> bool" where
  "covered t lvl \<longleftrightarrow>
     (\<forall>c < length (heap t). c \<notin> set lvl \<longrightarrow>
        (\<exists>p < length (heap t). is_parent_of (heap t) p c))"

definition extends :: "MerkleTree \<Rightarrow> MerkleTree \<Rightarrow> bool" where
  "extends t t' \<longleftrightarrow>
     (\<exists>xs. heap t' = heap t @ xs \<and> (\<forall>x \<in> set xs. \<not> isLeaf x)) \<and>
     leaves t' = leaves t \<and> tree_root t' = tree_root t"

definition leafNode :: "hashfn \<Rightarrow> string \<Rightarrow> nat \<Rightarrow> MerkleTreeNode" where
  "leafNode sha256 k i =
     \<lparr>hash = sha256 k, left = None, right = None, isLeaf = True, data = Some (k, i)\<rparr>"

text \<open>
  The strings the hash primitive is applied to while \<open>verifyMembershipProof\<close> folds a path:
  \<open>stepInput\<close> is the concatenation hashed at one step.
\<close>

definition stepInput :: "string \<Rightarrow> PathStep \<Rightarrow> string" where
  "stepInput currentHash s =
     (if isLeft s then sibling_hash s @ currentHash else currentHash @ sibling_hash s)"

fun foldInputs :: "hashfn \<Rightarrow> string \<Rightarrow> PathStep list \<Rightarrow> string list" where
  "foldInputs sha256 currentHash [] = []"
| "foldInputs sha256 currentHash (s # ss) =
     stepInput currentHash s # foldInputs sha256 (combineStep sha256 currentHash s) ss"

section \<open>The tree a build makes\<close>

lemma update_mem_same: "(k, v) \<in> set (AList.update k v m)"
  by (induction m) auto

lemma update_mem_other: "k' \<noteq> k \<Longrightarrow> (k', v') \<in> set m \<Longrightarrow> (k', v') \<in> set (AList.update k v m)"
  by (induction m) auto

lemma update_mem_cases: "(k', v') \<in> set (AList.update k v m) \<Longrightarrow> (k', v') = (k, v) \<or> (k', v') \<in> set m"
  by (induction m) (auto split: if_splits)

lemma extends_refl: "extends t t"
  by (simp add: extends_def)

lemma extends_trans: "extends t t1 \<Longrightarrow> extends t1 t2 \<Longrightarrow> extends t t2"
  unfolding extends_def by (elim conjE exE) (rule conjI, rule_tac x="xs @ xsa" in exI, auto)

lemma extends_nth: "extends t t' \<Longrightarrow> a < length (heap t) \<Longrightarrow> heap t' ! a = heap t ! a"
  by (auto simp: extends_def nth_append)

lemma extends_length: "extends t t' \<Longrightarrow> length (heap t) \<le> length (heap t')"
  by (auto simp: extends_def)

lemma addParent_heap:
  "addParent sha256 l r t = (p, t') \<Longrightarrow>
     p = length (heap t) \<and>
     heap t' = heap t @ [\<lparr>hash = sha256 (hash (heap t ! l) @ hash (heap t ! r)), left = Some l,
                          right = Some r, isLeaf = False, data = None\<rparr>] \<and>
     nodes t' = AList.update (sha256 (hash (heap t ! l) @ hash (heap t ! r))) (length (heap t)) (nodes t) \<and>
     leaves t' = leaves t \<and> tree_root t' = tree_root t"
  by (auto simp: addParent_def new_node_def combineHashes_def Let_def)

lemma addParent_extends: "addParent sha256 l r t = (p, t') \<Longrightarrow> extends t t'"
  by (drule addParent_heap) (simp add: extends_def)

lemma addParent_heap_ok:
  assumes "addParent sha256 l r t = (p, t')" "heap_ok sha256 (heap t)"
          "l < length (heap t)" "r < length (heap t)"
  shows "heap_ok sha256 (heap t')"
proof -
  note h = addParent_heap[OF assms(1)]
  show ?thesis
    unfolding heap_ok_def
  proof (intro allI impI)
    fix q assume q: "q < length (heap t')" "\<not> isLeaf (heap t' ! q)"
    show "\<exists>l r. left (heap t' ! q) = Some l \<and> right (heap t' ! q) = Some r \<and> l < q \<and> r < q \<and>
               hash (heap t' ! q) = sha256 (hash (heap t' ! l) @ hash (heap t' ! r))"
    proof (cases "q < length (heap t)")
      case True
      with assms(2) q h obtain l' r' where
        "left (heap t ! q) = Some l'" "right (heap t ! q) = Some r'" "l' < q" "r' < q"
        "hash (heap t ! q) = sha256 (hash (heap t ! l') @ hash (heap t ! r'))"
        unfolding heap_ok_def by (auto simp: nth_append)
      with True h show ?thesis by (auto simp: nth_append)
    next
      case False
      with q h have "q = length (heap t)" by simp
      with h assms(3,4) show ?thesis by (auto simp: nth_append)
    qed
  qed
qed

lemma internalHashes_addParent:
  "addParent sha256 l r t = (p, t') \<Longrightarrow>
   internalHashes t' = internalHashes t @ [sha256 (hash (heap t ! l) @ hash (heap t ! r))]"
  by (drule addParent_heap) (simp add: internalHashes_def)

lemma addParent_map_ok:
  assumes "addParent sha256 l r t = (p, t')" "map_ok t"
  shows "map_ok t'"
proof -
  note h = addParent_heap[OF assms(1)]
  let ?h = "sha256 (hash (heap t ! l) @ hash (heap t ! r))"
  let ?N = "length (heap t)"
  have a: "\<forall>(k, n) \<in> set (nodes t'). n < length (heap t')"
  proof (clarify)
    fix k n assume "(k, n) \<in> set (nodes t')"
    with h have "(k, n) = (?h, ?N) \<or> (k, n) \<in> set (nodes t)"
      by (auto dest: update_mem_cases)
    with assms(2) h show "n < length (heap t')" by (auto simp: map_ok_def)
  qed
  have b: "(hash (heap t' ! q), q) \<in> set (nodes t')"
    if d: "distinct (internalHashes t')" and q: "q < length (heap t')" "\<not> isLeaf (heap t' ! q)" for q
  proof (cases "q < ?N")
    case True
    from d have d0: "distinct (internalHashes t)" and nin: "?h \<notin> set (internalHashes t)"
      by (auto simp: internalHashes_addParent[OF assms(1)])
    from True q h have nl: "\<not> isLeaf (heap t ! q)" by (simp add: nth_append)
    with assms(2) d0 True have m: "(hash (heap t ! q), q) \<in> set (nodes t)"
      by (auto simp: map_ok_def)
    from nl True have "hash (heap t ! q) \<in> set (internalHashes t)"
      by (auto simp: internalHashes_def)
    with nin have "hash (heap t ! q) \<noteq> ?h" by auto
    with m h True show ?thesis by (simp add: nth_append update_mem_other)
  next
    case False
    with q h have "q = ?N" by simp
    with h show ?thesis by (simp add: update_mem_same)
  qed
  from a b show ?thesis unfolding map_ok_def by blast
qed


lemma is_parent_of_extends:
  "extends t t' \<Longrightarrow> p < length (heap t) \<Longrightarrow> is_parent_of (heap t) p c \<Longrightarrow> is_parent_of (heap t') p c"
  by (simp add: is_parent_of_def extends_nth)

lemma addParent_is_parent:
  "addParent sha256 l r t = (p, t') \<Longrightarrow>
     p < length (heap t') \<and> is_parent_of (heap t') p l \<and> is_parent_of (heap t') p r"
  by (drule addParent_heap) (simp add: is_parent_of_def)

text \<open>What the pairing loop does to a level of even length.\<close>

lemma pairUp_props:
  assumes "pairUp sha256 ns t = (ps, t')" "even (length ns)"
          "\<forall>c \<in> set ns. c < length (heap t)" "heap_ok sha256 (heap t)" "map_ok t"
  shows "extends t t' \<and> heap_ok sha256 (heap t') \<and> map_ok t' \<and>
         length ps = length ns div 2 \<and>
         set ps = {length (heap t) ..< length (heap t')} \<and>
         (\<forall>c \<in> set ns. \<exists>p \<in> set ps. is_parent_of (heap t') p c)"
  using assms
proof (induction sha256 ns t arbitrary: ps t' rule: pairUp.induct)
  case (1 sha256 l r rest t)
  obtain p t1 where ap: "addParent sha256 l r t = (p, t1)" by force
  obtain qs t2 where pu: "pairUp sha256 rest t1 = (qs, t2)" by force
  from "1.prems"(1) ap pu have ps: "ps = p # qs" and t': "t' = t2" by auto
  note h = addParent_heap[OF ap]
  have e1: "extends t t1" by (rule addParent_extends[OF ap])
  from "1.prems"(3) have lr: "l < length (heap t)" "r < length (heap t)" by auto
  have ok1: "heap_ok sha256 (heap t1)" by (rule addParent_heap_ok[OF ap "1.prems"(4) lr])
  have m1: "map_ok t1" by (rule addParent_map_ok[OF ap "1.prems"(5)])
  from "1.prems"(3) h have rest1: "\<forall>c \<in> set rest. c < length (heap t1)" by auto
  from "1.prems"(2) have ev: "even (length rest)" by simp
  have IH: "extends t1 t2 \<and> heap_ok sha256 (heap t2) \<and> map_ok t2 \<and>
         length qs = length rest div 2 \<and>
         set qs = {length (heap t1) ..< length (heap t2)} \<and>
         (\<forall>c \<in> set rest. \<exists>q \<in> set qs. is_parent_of (heap t2) q c)"
    by (rule "1.IH"[OF ap[symmetric] refl pu ev rest1 ok1 m1])
  then have e2: "extends t1 t2" by blast
  have len: "length (heap t1) = Suc (length (heap t))" using h by simp
  from extends_length[OF e2] len have le: "Suc (length (heap t)) \<le> length (heap t2)" by simp
  have setps: "set ps = {length (heap t) ..< length (heap t2)}"
    using IH ps h len le by auto
  from addParent_is_parent[OF ap] have par1: "p < length (heap t1)" "is_parent_of (heap t1) p l" "is_parent_of (heap t1) p r"
    by auto
  have par2: "is_parent_of (heap t2) p l" "is_parent_of (heap t2) p r"
    using is_parent_of_extends[OF e2 par1(1)] par1 by auto
  have cov: "\<forall>c \<in> set (l # r # rest). \<exists>q \<in> set ps. is_parent_of (heap t2) q c"
    using par2 IH ps by auto
  from IH e1 extends_trans[OF e1 e2] setps cov ps show ?case
    unfolding t' by simp
qed (simp_all add: extends_refl)

lemma set_padLevel: "ns \<noteq> [] \<Longrightarrow> set (padLevel ns) = set ns"
  by (auto simp: padLevel_def)

lemma even_padLevel: "even (length (padLevel ns))"
  by (auto simp: padLevel_def)

lemma length_padLevel: "length (padLevel ns) div 2 = (length ns + 1) div 2"
  by (auto simp: padLevel_def)

lemma covered_step:
  assumes "covered t ns" "extends t t'" "set ps = {length (heap t) ..< length (heap t')}"
          "\<forall>c \<in> set ns. \<exists>p \<in> set ps. is_parent_of (heap t') p c"
  shows "covered t' ps"
  unfolding covered_def
proof (intro allI impI)
  fix c assume c: "c < length (heap t')" "c \<notin> set ps"
  with assms(3) have c0: "c < length (heap t)" by auto
  show "\<exists>p<length (heap t'). is_parent_of (heap t') p c"
  proof (cases "c \<in> set ns")
    case True
    with assms(4) obtain p where "p \<in> set ps" "is_parent_of (heap t') p c" by blast
    with assms(3) show ?thesis by auto
  next
    case False
    with assms(1) c0 obtain p where p: "p < length (heap t)" "is_parent_of (heap t) p c"
      unfolding covered_def by blast
    from is_parent_of_extends[OF assms(2) p] p(1) extends_length[OF assms(2)] show ?thesis
      by (intro exI[of _ p]) simp
  qed
qed

text \<open>The recursion returns for every non-empty level, and what it returns.\<close>

lemma buildTreeRecursive_props:
  assumes "ns \<noteq> []" "\<forall>c \<in> set ns. c < length (heap t)" "heap_ok sha256 (heap t)" "map_ok t"
          "covered t ns"
  shows "\<exists>r t'. buildTreeRecursive sha256 ns t =
                   Some (r, (if length ns = 1 then ns else padLevel ns), t') \<and>
                 extends t t' \<and> heap_ok sha256 (heap t') \<and> map_ok t' \<and>
                 r < length (heap t') \<and> covered t' [r]"
  using assms
proof (induction "length ns" arbitrary: ns t rule: less_induct)
  case less
  show ?case
  proof (cases "length ns = 1")
    case True
    then obtain r where ns: "ns = [r]" by (cases ns) auto
    with less.prems show ?thesis
      by (subst buildTreeRecursive.simps) (simp add: extends_refl)
  next
    case False
    obtain ps t1 where pu: "pairUp sha256 (padLevel ns) t = (ps, t1)" by force
    from less.prems(1,2) have b: "\<forall>c \<in> set (padLevel ns). c < length (heap t)"
      by (simp add: set_padLevel)
    note pp = pairUp_props[OF pu even_padLevel b less.prems(3,4)]
    from pp have lenps: "length ps = (length ns + 1) div 2" by (simp add: length_padLevel)
    from less.prems(1) False have "2 \<le> length ns" by (cases ns; cases "tl ns") auto
    with lenps have lt: "length ps < length ns" and ne: "ps \<noteq> []" by auto
    from pp have e1: "extends t t1" and setps: "set ps = {length (heap t) ..< length (heap t1)}" by auto
    from setps have b1: "\<forall>c \<in> set ps. c < length (heap t1)" by auto
    from pp have "\<forall>c \<in> set (padLevel ns). \<exists>p \<in> set ps. is_parent_of (heap t1) p c"
      by blast
    then have par: "\<forall>c \<in> set ns. \<exists>p \<in> set ps. is_parent_of (heap t1) p c"
      unfolding set_padLevel[OF less.prems(1)] .
    have cov1: "covered t1 ps" by (rule covered_step[OF less.prems(5) e1 setps par])
    from pp have ok1: "heap_ok sha256 (heap t1)" and m1: "map_ok t1" by auto
    from less.hyps[OF lt ne b1 ok1 m1 cov1] obtain r t' where
      r: "buildTreeRecursive sha256 ps t1 = Some (r, (if length ps = 1 then ps else padLevel ps), t')"
         "extends t1 t'" "heap_ok sha256 (heap t')" "map_ok t'" "r < length (heap t')" "covered t' [r]"
      by blast
    have "buildTreeRecursive sha256 ns t = Some (r, padLevel ns, t')"
      using False pu r(1) by (subst buildTreeRecursive.simps) simp
    with False r extends_trans[OF e1 r(2)] show ?thesis by simp
  qed
qed

lemma pairUp_children:
  assumes "pairUp sha256 ns t = (ps, t')" "even (length ns)"
          "\<forall>c \<in> set ns. c < length (heap t)" "heap_ok sha256 (heap t)" "map_ok t"
  shows "\<forall>p \<in> set ps. \<exists>l \<in> set ns. \<exists>r \<in> set ns.
           left (heap t' ! p) = Some l \<and> right (heap t' ! p) = Some r \<and> \<not> isLeaf (heap t' ! p)"
  using assms
proof (induction sha256 ns t arbitrary: ps t' rule: pairUp.induct)
  case (1 sha256 l r rest t)
  obtain p t1 where ap: "addParent sha256 l r t = (p, t1)" by force
  obtain qs t2 where pu: "pairUp sha256 rest t1 = (qs, t2)" by force
  from "1.prems"(1) ap pu have ps: "ps = p # qs" and t': "t' = t2" by auto
  note h = addParent_heap[OF ap]
  from "1.prems"(3) have lr: "l < length (heap t)" "r < length (heap t)" by auto
  have ok1: "heap_ok sha256 (heap t1)" by (rule addParent_heap_ok[OF ap "1.prems"(4) lr])
  have m1: "map_ok t1" by (rule addParent_map_ok[OF ap "1.prems"(5)])
  from "1.prems"(3) h have rest1: "\<forall>c \<in> set rest. c < length (heap t1)" by auto
  from "1.prems"(2) have ev: "even (length rest)" by simp
  have IH: "\<forall>q \<in> set qs. \<exists>l \<in> set rest. \<exists>r \<in> set rest.
           left (heap t2 ! q) = Some l \<and> right (heap t2 ! q) = Some r \<and> \<not> isLeaf (heap t2 ! q)"
    by (rule "1.IH"[OF ap[symmetric] refl pu ev rest1 ok1 m1])
  from pairUp_props[OF pu ev rest1 ok1 m1] have e2: "extends t1 t2" by blast
  from h have "p < length (heap t1)" by simp
  from extends_nth[OF e2 this] h
  have "left (heap t2 ! p) = Some l \<and> right (heap t2 ! p) = Some r \<and> \<not> isLeaf (heap t2 ! p)"
    by simp
  with IH show ?case unfolding ps t' by auto
qed simp_all

text \<open>The height of a node does not change when nodes are added to the heap.\<close>

lemma calculateHeight_frame:
  assumes "heap_ok sha256 (heap t)" "heap t' = heap t @ xs" "a < length (heap t)"
  shows "calculateHeight t' (Some a) = calculateHeight t (Some a)"
  using assms(3)
proof (induction a rule: less_induct)
  case (less a)
  from assms(2) less.prems have same: "heap t' ! a = heap t ! a" by (simp add: nth_append)
  show ?case
  proof (cases "isLeaf (heap t ! a)")
    case True
    then show ?thesis
      using same by (subst calculateHeight.simps, subst (2) calculateHeight.simps) simp
  next
    case False
    with assms(1) less.prems obtain l r where
      lr: "left (heap t ! a) = Some l" "right (heap t ! a) = Some r" "l < a" "r < a"
      unfolding heap_ok_def by blast
    from lr less.prems have "l < length (heap t)" "r < length (heap t)" by auto
    with less.IH lr have
      "calculateHeight t' (Some l) = calculateHeight t (Some l)"
      "calculateHeight t' (Some r) = calculateHeight t (Some r)" by auto
    with False lr same show ?thesis
      by (subst calculateHeight.simps, subst (2) calculateHeight.simps) simp
  qed
qed

lemma calculateHeight_parent:
  assumes "left (heap t ! p) = Some l" "right (heap t ! p) = Some r" "\<not> isLeaf (heap t ! p)"
          "calculateHeight t (Some l) = Some d" "calculateHeight t (Some r) = Some d"
  shows "calculateHeight t (Some p) = Some (Suc d)"
  using assms by (subst calculateHeight.simps) simp

lemma buildTreeRecursive_height:
  assumes "ns \<noteq> []" "\<forall>c \<in> set ns. c < length (heap t)" "heap_ok sha256 (heap t)" "map_ok t"
          "\<forall>c \<in> set ns. calculateHeight t (Some c) = Some d"
          "buildTreeRecursive sha256 ns t = Some (r, lv, t')"
  shows "calculateHeight t' (Some r) = Some (d + ceillog2 (length ns))"
  using assms
proof (induction "length ns" arbitrary: ns t d lv rule: less_induct)
  case less
  show ?case
  proof (cases "length ns = 1")
    case True
    then obtain c where ns: "ns = [c]" by (cases ns) auto
    from less.prems(6) have "r = c" "t' = t"
      unfolding ns by (subst (asm) buildTreeRecursive.simps, simp)+
    with less.prems(5) ns show ?thesis by simp
  next
    case False
    obtain ps t1 where pu: "pairUp sha256 (padLevel ns) t = (ps, t1)" by force
    from less.prems(1,2) have b: "\<forall>c \<in> set (padLevel ns). c < length (heap t)"
      by (simp add: set_padLevel)
    note pp = pairUp_props[OF pu even_padLevel b less.prems(3,4)]
    note pc = pairUp_children[OF pu even_padLevel b less.prems(3,4)]
    from pp have lenps: "length ps = (length ns + 1) div 2" by (simp add: length_padLevel)
    from less.prems(1) False have two: "2 \<le> length ns" by (cases ns; cases "tl ns") auto
    with lenps have lt: "length ps < length ns" and ne: "ps \<noteq> []" by auto
    from pp have e1: "extends t t1" and setps: "set ps = {length (heap t) ..< length (heap t1)}" by auto
    from setps have b1: "\<forall>c \<in> set ps. c < length (heap t1)" by auto
    from pp have ok1: "heap_ok sha256 (heap t1)" and m1: "map_ok t1" by auto
    from e1 obtain xs where xs: "heap t1 = heap t @ xs" unfolding extends_def by blast
    have h1: "\<forall>p \<in> set ps. calculateHeight t1 (Some p) = Some (Suc d)"
    proof
      fix p assume "p \<in> set ps"
      with pc obtain l r' where lr: "l \<in> set (padLevel ns)" "r' \<in> set (padLevel ns)"
        "left (heap t1 ! p) = Some l" "right (heap t1 ! p) = Some r'" "\<not> isLeaf (heap t1 ! p)"
        by blast
      from lr(1,2) have mem: "l \<in> set ns" "r' \<in> set ns"
        unfolding set_padLevel[OF less.prems(1)] by auto
      with less.prems(2) have lt: "l < length (heap t)" "r' < length (heap t)" by auto
      from mem less.prems(5) have "calculateHeight t (Some l) = Some d" "calculateHeight t (Some r') = Some d"
        by auto
      with calculateHeight_frame[OF less.prems(3) xs] lt have
        "calculateHeight t1 (Some l) = Some d" "calculateHeight t1 (Some r') = Some d" by auto
      with lr show "calculateHeight t1 (Some p) = Some (Suc d)"
        by (intro calculateHeight_parent)
    qed
    from less.prems(6) False pu obtain lv1 where
      rec: "buildTreeRecursive sha256 ps t1 = Some (r, lv1, t')"
      by (subst (asm) buildTreeRecursive.simps) (auto split: Option.bind_splits)
    from less.hyps[OF lt ne b1 ok1 m1 h1 rec]
    have "calculateHeight t' (Some r) = Some (Suc d + ceillog2 (length ps))" .
    moreover from two have "ceillog2 (length ns) = 1 + ceillog2 ((length ns + 1) div 2)"
      by (subst ceillog2_rec) simp
    ultimately show ?thesis using lenps by simp
  qed
qed

lemma calculateHeight_leaf: "isLeaf (heap t ! a) \<Longrightarrow> calculateHeight t (Some a) = Some 1"
  by (subst calculateHeight.simps) simp

lemma addLeaf_eq:
  "addLeaf sha256 k i t =
     t\<lparr>heap := heap t @ [leafNode sha256 k i], leaves := leaves t @ [length (heap t)],
       nodes := AList.update (sha256 k) (length (heap t)) (nodes t)\<rparr>"
  by (simp add: addLeaf_def new_node_def generateUserId_def leafNode_def Let_def)

lemma addLeaves_props:
  "heap (addLeaves sha256 ks i t) =
     heap t @ map (\<lambda>(k, j). leafNode sha256 k j) (zip ks [i ..< i + length ks]) \<and>
   leaves (addLeaves sha256 ks i t) = leaves t @ [length (heap t) ..< length (heap t) + length ks] \<and>
   tree_root (addLeaves sha256 ks i t) = tree_root t"
proof (induction ks arbitrary: i t)
  case Nil
  then show ?case by simp
next
  case (Cons k ks)
  have u: "[i ..< i + length (k # ks)] = i # [Suc i ..< Suc i + length ks]"
    by (simp add: upt_conv_Cons del: upt_Suc)
  have v: "[length (heap t) ..< length (heap t) + length (k # ks)] =
           length (heap t) # [Suc (length (heap t)) ..< Suc (length (heap t)) + length ks]"
    by (simp add: upt_conv_Cons del: upt_Suc)
  show ?case
    unfolding u v by (simp add: Cons.IH addLeaf_eq)
qed

lemma addLeaves_nodes_valid:
  "\<forall>(h, n) \<in> set (nodes t). n < length (heap t) \<Longrightarrow>
   \<forall>(h, n) \<in> set (nodes (addLeaves sha256 ks i t)). n < length (heap (addLeaves sha256 ks i t))"
proof (induction ks arbitrary: i t)
  case Nil
  then show ?case by simp
next
  case (Cons k ks)
  have "\<forall>(h, n) \<in> set (nodes (addLeaf sha256 k i t)). n < length (heap (addLeaf sha256 k i t))"
  proof clarify
    fix h n assume "(h, n) \<in> set (nodes (addLeaf sha256 k i t))"
    then have "(h, n) = (sha256 k, length (heap t)) \<or> (h, n) \<in> set (nodes t)"
      by (auto simp: addLeaf_eq dest: update_mem_cases)
    with Cons.prems show "n < length (heap (addLeaf sha256 k i t))"
      by (auto simp: addLeaf_eq)
  qed
  from Cons.IH[OF this] show ?case by simp
qed

text \<open>The state after the leaf loop of a build that starts from a new tree.\<close>

lemma leaves_state:
  assumes "t1 = addLeaves sha256 ks 0 (newMerkleTree\<lparr>leaves := []\<rparr>)"
  shows "heap t1 = map (\<lambda>(k, j). leafNode sha256 k j) (zip ks [0 ..< length ks])"
    and "leaves t1 = [0 ..< length ks]"
    and "heap_ok sha256 (heap t1)" and "map_ok t1" and "covered t1 (leaves t1)"
proof -
  let ?t0 = "newMerkleTree\<lparr>leaves := []\<rparr>"
  have h0: "heap ?t0 = []" "leaves ?t0 = []" "nodes ?t0 = []" by (simp_all add: newMerkleTree_def)
  from addLeaves_props[of sha256 ks 0 ?t0] h0 assms
  show hp: "heap t1 = map (\<lambda>(k, j). leafNode sha256 k j) (zip ks [0 ..< length ks])"
    and lv: "leaves t1 = [0 ..< length ks]" by simp_all
  have allleaf: "isLeaf (heap t1 ! p)" if "p < length (heap t1)" for p
    using that unfolding hp by (simp add: leafNode_def)
  then show "heap_ok sha256 (heap t1)" unfolding heap_ok_def by blast
  have "\<forall>(h, n) \<in> set (nodes t1). n < length (heap t1)"
    unfolding assms by (rule addLeaves_nodes_valid) (simp add: h0)
  with allleaf show "map_ok t1" unfolding map_ok_def by blast
  have "length (heap t1) = length ks" unfolding hp by simp
  then show "covered t1 (leaves t1)" unfolding covered_def lv by simp
qed

text \<open>A build from a new tree returns a tree, and the tree has the following shape.\<close>

lemma buildTree_props:
  assumes "ks \<noteq> []"
  shows "\<exists>t r. buildTree sha256 ks newMerkleTree = Some (Inr t) \<and>
           tree_root t = Some r \<and> r < length (heap t) \<and>
           heap_ok sha256 (heap t) \<and> map_ok t \<and> covered t [r] \<and>
           leaves t = (if length ks = 1 then [0 ..< length ks] else padLevel [0 ..< length ks]) \<and>
           length ks \<le> length (heap t) \<and>
           (\<forall>j < length ks. heap t ! j = leafNode sha256 (ks ! j) j)"
proof -
  define t1 where "t1 = addLeaves sha256 ks 0 (newMerkleTree\<lparr>leaves := []\<rparr>)"
  note ls = leaves_state[OF t1_def]
  have len: "length (heap t1) = length ks" unfolding ls(1) by simp
  have ne: "leaves t1 \<noteq> []" using assms ls(2) by simp
  have b: "\<forall>c \<in> set (leaves t1). c < length (heap t1)" using ls(2) len by simp
  from buildTreeRecursive_props[OF ne b ls(3,4,5)] obtain r t2 where
    r: "buildTreeRecursive sha256 (leaves t1) t1 =
          Some (r, (if length (leaves t1) = 1 then leaves t1 else padLevel (leaves t1)), t2)"
       "extends t1 t2" "heap_ok sha256 (heap t2)" "map_ok t2" "r < length (heap t2)" "covered t2 [r]"
    by blast
  let ?lv = "if length (leaves t1) = 1 then leaves t1 else padLevel (leaves t1)"
  let ?t = "t2\<lparr>leaves := ?lv, tree_root := Some r\<rparr>"
  have bt: "buildTree sha256 ks newMerkleTree = Some (Inr ?t)"
    using assms r(1) unfolding buildTree_def t1_def[symmetric] by (simp add: Let_def)
  have hp: "heap ?t = heap t2" and nd: "nodes ?t = nodes t2" by simp_all
  have mo: "map_ok ?t" using r(4) by (simp add: map_ok_def internalHashes_def)
  have co: "covered ?t [r]" using r(6) by (simp add: covered_def)
  have leafs: "\<forall>j < length ks. heap ?t ! j = leafNode sha256 (ks ! j) j"
  proof (intro allI impI)
    fix j assume j: "j < length ks"
    then have "heap t2 ! j = heap t1 ! j" using extends_nth[OF r(2)] len by simp
    also have "\<dots> = leafNode sha256 (ks ! j) j" unfolding ls(1) using j by simp
    finally show "heap ?t ! j = leafNode sha256 (ks ! j) j" by simp
  qed
  have "length ks \<le> length (heap ?t)" using extends_length[OF r(2)] len by simp
  with bt r(3,5) mo co leafs ls(2) show ?thesis
    by (intro exI[of _ ?t] exI[of _ r]) simp
qed

lemma findParent_Some:
  assumes "map_ok t" "distinct (internalHashes t)" "p < length (heap t)" "is_parent_of (heap t) p c"
  shows "\<exists>q. findParent t c = Some q \<and> q < length (heap t) \<and> is_parent_of (heap t) q c"
proof -
  let ?P = "\<lambda>(h, n). (left (heap t ! n) = Some c \<or> right (heap t ! n) = Some c) \<and> \<not> isLeaf (heap t ! n)"
  from assms have "(hash (heap t ! p), p) \<in> set (nodes t)"
    by (auto simp: map_ok_def is_parent_of_def)
  moreover from assms(4) have "?P (hash (heap t ! p), p)" by (simp add: is_parent_of_def)
  ultimately have "find ?P (nodes t) \<noteq> None" unfolding find_None_iff by blast
  then obtain h q where f: "find ?P (nodes t) = Some (h, q)" by auto
  then have "(h, q) \<in> set (nodes t)" and "?P (h, q)"
    unfolding find_Some_iff by (auto simp: in_set_conv_nth)
  with assms(1) have "q < length (heap t)" "is_parent_of (heap t) q c"
    by (auto simp: map_ok_def is_parent_of_def)
  moreover from f have "findParent t c = Some q" by (simp add: findParent_def)
  ultimately show ?thesis by blast
qed

lemma walkToRoot_props:
  assumes "heap_ok sha256 (heap t)" "map_ok t" "distinct (internalHashes t)" "covered t [r]"
          "tree_root t = Some r" "c < length (heap t)"
  shows "\<exists>sfx. walkToRoot t c pth = Some (Inr (pth @ sfx)) \<and>
               foldPath sha256 (hash (heap t ! c)) sfx = hash (heap t ! r)"
  using assms(6)
proof (induction "length (heap t) - c" arbitrary: c pth rule: less_induct)
  case less
  show ?case
  proof (cases "c = r")
    case True
    with assms(5) have "walkToRoot t c pth = Some (Inr pth)"
      by (subst walkToRoot.simps) simp
    with True show ?thesis by (intro exI[of _ "[]"]) simp
  next
    case False
    with assms(4) less.prems obtain p where p: "p < length (heap t)" "is_parent_of (heap t) p c"
      unfolding covered_def by auto
    from findParent_Some[OF assms(2,3) p] obtain q where
      q: "findParent t c = Some q" "q < length (heap t)" "is_parent_of (heap t) q c" by blast
    from q(3) have nl: "\<not> isLeaf (heap t ! q)" by (simp add: is_parent_of_def)
    with assms(1) q(2) obtain l r' where
      lr: "left (heap t ! q) = Some l" "right (heap t ! q) = Some r'" "l < q" "r' < q"
          "hash (heap t ! q) = sha256 (hash (heap t ! l) @ hash (heap t ! r'))"
      unfolding heap_ok_def by blast
    from q(3) lr have c: "c = l \<or> c = r'" by (auto simp: is_parent_of_def)
    with lr have cq: "c < q" by auto
    define s where "s = (if l = c then r' else l)"
    define step where "step = \<lparr>sibling_hash = hash (heap t ! s), isLeft = \<not> (l = c), level = length pth\<rparr>"
    have cs: "combineStep sha256 (hash (heap t ! c)) step = hash (heap t ! q)"
      using c lr(5) by (auto simp: combineStep_def step_def s_def combineHashes_def)
    from cq q(2) have "length (heap t) - q < length (heap t) - c" by simp
    from less.hyps[OF this q(2), of "pth @ [step]"] obtain sfx where
      sfx: "walkToRoot t q (pth @ [step]) = Some (Inr ((pth @ [step]) @ sfx))"
           "foldPath sha256 (hash (heap t ! q)) sfx = hash (heap t ! r)" by blast
    have "walkToRoot t c pth = walkToRoot t q (pth @ [step])"
      using False assms(5) q(1) lr(1,2)
      by (subst walkToRoot.simps) (simp add: step_def s_def Let_def)
    with sfx cs show ?thesis by (intro exI[of _ "step # sfx"]) simp
  qed
qed

section \<open>Sample data\<close>

lemma sampleTree_built:
  "buildTree sampleHash [''a'', ''b'', ''c''] newMerkleTree = Some (Inr sampleTree)"
  by code_simp

lemma sampleTree_distinct: "distinct (internalHashes sampleTree)"
  by (simp add: internalHashes_def sampleTree_def)

section \<open>Round trip of membership proofs\<close>

text \<open>
  Claim C1, as amended. For every key list and every key \<open>k\<close> of the list, the build with a
  new \<open>MerkleTree\<close> returns a tree; and if no two nodes of that tree that are not leaves
  have the same hash, \<open>generateMembershipProof\<close> returns a proof for \<open>k\<close> (the walk to the
  root ends, and nothing is thrown) and \<open>verifyMembershipProof\<close> accepts that proof. The
  hash primitive is any function. Keys may repeat and leaves may share hashes: only the
  parents are looked up through the map.
\<close>

theorem membership_roundtrip:
  assumes "k \<in> set ks"
  shows "\<exists>t. buildTree sha256 ks newMerkleTree = Some (Inr t) \<and>
             (distinct (internalHashes t) \<longrightarrow>
                (\<exists>mp. generateMembershipProof sha256 t k = Some (Inr mp) \<and>
                       verifyMembershipProof sha256 mp))"
proof -
  from assms have ne: "ks \<noteq> []" by auto
  from buildTree_props[OF ne, of sha256] obtain t r where
    t: "buildTree sha256 ks newMerkleTree = Some (Inr t)"
       "tree_root t = Some r" "r < length (heap t)" "heap_ok sha256 (heap t)" "map_ok t"
       "covered t [r]"
       "leaves t = (if length ks = 1 then [0 ..< length ks] else padLevel [0 ..< length ks])"
       "length ks \<le> length (heap t)"
       "\<forall>j < length ks. heap t ! j = leafNode sha256 (ks ! j) j"
    by blast
  have "\<exists>mp. generateMembershipProof sha256 t k = Some (Inr mp) \<and> verifyMembershipProof sha256 mp"
    if dist: "distinct (internalHashes t)"
  proof -
    have setlv: "set (leaves t) = {..< length ks}"
      using ne t(7) by (auto simp: set_padLevel)
    let ?P = "\<lambda>l. hash (heap t ! l) = generateUserId sha256 k"
    from assms obtain j where j: "j < length ks" "ks ! j = k" by (auto simp: in_set_conv_nth)
    with t(9) have "?P j" by (simp add: leafNode_def generateUserId_def)
    moreover from j setlv have "j \<in> set (leaves t)" by simp
    ultimately have "find ?P (leaves t) \<noteq> None" unfolding find_None_iff by blast
    then obtain lf where f: "find ?P (leaves t) = Some lf" by auto
    then have lf: "lf \<in> set (leaves t)" "?P lf"
      unfolding find_Some_iff by (auto simp: in_set_conv_nth)
    with setlv have lflt: "lf < length ks" by simp
    with t(9) have d: "data (heap t ! lf) = Some (ks ! lf, lf)" by (simp add: leafNode_def)
    from lflt t(8) have "lf < length (heap t)" by simp
    from walkToRoot_props[OF t(4,5) dist t(6,2) this, of "[]"] obtain pth where
      w: "walkToRoot t lf [] = Some (Inr pth)"
         "foldPath sha256 (hash (heap t ! lf)) pth = hash (heap t ! r)" by auto
    let ?mp = "\<lparr>leafHash = generateUserId sha256 k, leafIndex = lf, path = pth,
                rootHash = getRootHash t\<rparr>"
    have g: "generateMembershipProof sha256 t k = Some (Inr ?mp)"
      using f d w(1) by (simp add: generateMembershipProof_def Let_def)
    have "verifyMembershipProof sha256 ?mp"
      using w(2) lf(2) t(2) by (simp add: verifyMembershipProof_def getRootHash_def)
    with g show ?thesis by blast
  qed
  with t(1) show ?thesis by blast
qed

text \<open>The theorem at the keys \<open>a\<close>, \<open>b\<close>, \<open>c\<close> and the key \<open>b\<close>.\<close>

theorem membership_roundtrip_witness:
  "''b'' \<in> set [''a'', ''b'', ''c''] \<and>
   buildTree sampleHash [''a'', ''b'', ''c''] newMerkleTree = Some (Inr sampleTree) \<and>
   distinct (internalHashes sampleTree) \<and>
   (\<exists>mp. generateMembershipProof sampleHash sampleTree ''b'' = Some (Inr mp) \<and>
          verifyMembershipProof sampleHash mp)"
proof -
  have m: "''b'' \<in> set [''a'', ''b'', ''c'']" by simp
  from membership_roundtrip[OF m, of sampleHash] sampleTree_built sampleTree_distinct
  have "\<exists>mp. generateMembershipProof sampleHash sampleTree ''b'' = Some (Inr mp) \<and>
          verifyMembershipProof sampleHash mp" by auto
  with m sampleTree_built sampleTree_distinct show ?thesis by blast
qed

text \<open>
  Claim C1 as stated, for every key list, fails. With the keys \<open>a\<close>, \<open>a\<close>, \<open>a\<close> the parent
  of the first two leaves and the parent of the padded third leaf have the same hash, so
  the second \<open>set\<close> replaces the first parent in the map; \<open>_findParent\<close> finds no parent
  for leaf 0, the walk breaks at once, the path is empty, and the leaf hash is not the
  root hash.
\<close>

theorem roundtrip_fails_on_equal_keys:
  "proveAfterBuild sampleHash [''a'', ''a'', ''a''] ''a'' =
     Some (Inr \<lparr>leafHash = ''ha'', leafIndex = 0, path = [],
                rootHash = Some ''hhhahahhaha''\<rparr>) \<and>
   \<not> verifyMembershipProof sampleHash
        \<lparr>leafHash = ''ha'', leafIndex = 0, path = [], rootHash = Some ''hhhahahhaha''\<rparr>"
  by code_simp

section \<open>Verification from the proof alone\<close>

text \<open>
  Claim C10. For every hash string \<open>h\<close> and every leaf index, the proof with an empty path,
  leaf hash \<open>h\<close> and root hash \<open>h\<close> is accepted: the fold over the empty path is the leaf
  hash. \<open>verifyMembershipProof\<close> takes the hash primitive and the proof only, no tree and
  no state of the system, and it never reads the leaf index.
\<close>

theorem empty_path_accepts_root:
  "verifyMembershipProof sha256 \<lparr>leafHash = h, leafIndex = i, path = [], rootHash = Some h\<rparr> \<and>
   foldPath sha256 h [] = h"
  by (simp add: verifyMembershipProof_def)

section \<open>Tamper sensitivity of membership proofs\<close>

lemma combineStep_stepInput: "combineStep sha256 cur s = sha256 (stepInput cur s)"
  by (simp add: combineStep_def stepInput_def combineHashes_def)

lemma foldPath_append:
  "foldPath sha256 cur (xs @ ys) = foldPath sha256 (foldPath sha256 cur xs) ys"
  by (induction xs arbitrary: cur) auto

lemma foldInputs_append:
  "foldInputs sha256 cur (xs @ ys) =
     foldInputs sha256 cur xs @ foldInputs sha256 (foldPath sha256 cur xs) ys"
  by (induction xs arbitrary: cur) auto

lemma stepInput_inject: "stepInput cur s = stepInput cur' s \<longleftrightarrow> cur = cur'"
  by (simp add: stepInput_def)

text \<open>Two folds of one path from different hashes stay different.\<close>

lemma foldPath_diverges:
  assumes "cur \<noteq> cur'"
      and "inj_on sha256 (set (foldInputs sha256 cur ss) \<union> set (foldInputs sha256 cur' ss))"
  shows "foldPath sha256 cur ss \<noteq> foldPath sha256 cur' ss"
  using assms
proof (induction ss arbitrary: cur cur')
  case Nil
  then show ?case by simp
next
  case (Cons s ss)
  let ?a = "stepInput cur s" and ?b = "stepInput cur' s"
  from Cons.prems(1) have ne: "?a \<noteq> ?b" by (simp add: stepInput_inject)
  from Cons.prems(2) have "inj_on sha256 {?a, ?b}"
    by (rule inj_on_subset) auto
  with ne have ne': "sha256 ?a \<noteq> sha256 ?b" by (auto simp: inj_on_def)
  from Cons.prems(2) have
    "inj_on sha256 (set (foldInputs sha256 (sha256 ?a) ss) \<union> set (foldInputs sha256 (sha256 ?b) ss))"
    by (rule inj_on_subset) (auto simp: combineStep_stepInput)
  from Cons.IH[OF ne' this] show ?case by (simp add: combineStep_stepInput)
qed

text \<open>
  Claim C6. Let \<open>verifyMembershipProof\<close> accept a proof, with a path of any length, the
  empty one included. Replacing the root hash of the proof by any different value makes
  verification false; this half needs nothing of the hash primitive. And replacing the
  sibling hash of any one step of the path by any different string (a string that differs
  in a single character is such a string) makes verification false, when the hash
  primitive is injective on the strings involved: the concatenations it is applied to
  while the path of the proof and the tampered path are folded.
\<close>

theorem tamper_detected:
  assumes "verifyMembershipProof sha256 prf"
  shows "(r' \<noteq> rootHash prf \<longrightarrow> \<not> verifyMembershipProof sha256 (prf\<lparr>rootHash := r'\<rparr>)) \<and>
         (i < length (path prf) \<and> h' \<noteq> sibling_hash (path prf ! i) \<and>
          inj_on sha256
             (set (foldInputs sha256 (leafHash prf) (path prf)) \<union>
              set (foldInputs sha256 (leafHash prf)
                     ((path prf)[i := (path prf ! i)\<lparr>sibling_hash := h'\<rparr>]))) \<longrightarrow>
          \<not> verifyMembershipProof sha256
               (prf\<lparr>path := (path prf)[i := (path prf ! i)\<lparr>sibling_hash := h'\<rparr>]\<rparr>))"
proof (intro conjI impI)
  assume "r' \<noteq> rootHash prf"
  with assms show "\<not> verifyMembershipProof sha256 (prf\<lparr>rootHash := r'\<rparr>)"
    by (auto simp: verifyMembershipProof_def)
next
  assume a: "i < length (path prf) \<and> h' \<noteq> sibling_hash (path prf ! i) \<and>
          inj_on sha256
             (set (foldInputs sha256 (leafHash prf) (path prf)) \<union>
              set (foldInputs sha256 (leafHash prf)
                     ((path prf)[i := (path prf ! i)\<lparr>sibling_hash := h'\<rparr>])))"
  then have il: "i < length (path prf)" and hne: "h' \<noteq> sibling_hash (path prf ! i)"
    and inj0: "inj_on sha256
             (set (foldInputs sha256 (leafHash prf) (path prf)) \<union>
              set (foldInputs sha256 (leafHash prf)
                     ((path prf)[i := (path prf ! i)\<lparr>sibling_hash := h'\<rparr>])))"
    by blast+
  define pre where "pre = take i (path prf)"
  define post where "post = drop (Suc i) (path prf)"
  define s where "s = path prf ! i"
  define s' where "s' = s\<lparr>sibling_hash := h'\<rparr>"
  define cur where "cur = foldPath sha256 (leafHash prf) pre"
  have p: "path prf = pre @ s # post"
    unfolding pre_def post_def s_def by (rule id_take_nth_drop[OF il])
  have p': "(path prf)[i := s'] = pre @ s' # post"
    unfolding pre_def post_def by (rule upd_conv_take_nth_drop[OF il])
  from hne have ne: "stepInput cur s \<noteq> stepInput cur s'"
    by (simp add: stepInput_def s'_def s_def)
  from inj0 have inj:
    "inj_on sha256 (set (foldInputs sha256 (leafHash prf) (pre @ s # post)) \<union>
                    set (foldInputs sha256 (leafHash prf) (pre @ s' # post)))"
    unfolding s_def[symmetric] s'_def[symmetric] p' unfolding p .
  then have "inj_on sha256 {stepInput cur s, stepInput cur s'}"
    by (rule inj_on_subset) (auto simp: foldInputs_append cur_def)
  with ne have ne': "sha256 (stepInput cur s) \<noteq> sha256 (stepInput cur s')"
    by (auto simp: inj_on_def)
  from inj have
    "inj_on sha256 (set (foldInputs sha256 (sha256 (stepInput cur s)) post) \<union>
                    set (foldInputs sha256 (sha256 (stepInput cur s')) post))"
    by (rule inj_on_subset) (auto simp: foldInputs_append cur_def combineStep_stepInput)
  from foldPath_diverges[OF ne' this] have
    "foldPath sha256 (leafHash prf) (pre @ s # post) \<noteq> foldPath sha256 (leafHash prf) (pre @ s' # post)"
    by (simp add: foldPath_append cur_def combineStep_stepInput)
  with assms show "\<not> verifyMembershipProof sha256
             (prf\<lparr>path := (path prf)[i := (path prf ! i)\<lparr>sibling_hash := h'\<rparr>]\<rparr>)"
    unfolding s_def[symmetric] s'_def[symmetric] p'
    by (simp add: verifyMembershipProof_def p) (metis option.inject)
qed

lemma sampleHash_inj: "inj_on sampleHash A"
  by (simp add: inj_on_def sampleHash_def)

text \<open>
  The theorem at the sample proof, where the first sibling hash \<open>ha\<close> becomes \<open>xa\<close> and the
  root hash another string, and at the proof with the empty path, where the root hash
  becomes another string.
\<close>

theorem tamper_detected_witness:
  "verifyMembershipProof sampleHash sampleMembershipProof \<and>
   Some ''hhhahbhhchd'' \<noteq> rootHash sampleMembershipProof \<and>
   \<not> verifyMembershipProof sampleHash (sampleMembershipProof\<lparr>rootHash := Some ''hhhahbhhchd''\<rparr>) \<and>
   (0::nat) < length (path sampleMembershipProof) \<and>
   ''xa'' \<noteq> sibling_hash (path sampleMembershipProof ! 0) \<and>
   inj_on sampleHash
     (set (foldInputs sampleHash (leafHash sampleMembershipProof) (path sampleMembershipProof)) \<union>
      set (foldInputs sampleHash (leafHash sampleMembershipProof)
             ((path sampleMembershipProof)
                [0 := (path sampleMembershipProof ! 0)\<lparr>sibling_hash := ''xa''\<rparr>]))) \<and>
   \<not> verifyMembershipProof sampleHash
        (sampleMembershipProof
           \<lparr>path := (path sampleMembershipProof)
                       [0 := (path sampleMembershipProof ! 0)\<lparr>sibling_hash := ''xa''\<rparr>]\<rparr>) \<and>
   verifyMembershipProof sampleHash singleLeafProof \<and>
   path singleLeafProof = [] \<and>
   Some ''hb'' \<noteq> rootHash singleLeafProof \<and>
   \<not> verifyMembershipProof sampleHash (singleLeafProof\<lparr>rootHash := Some ''hb''\<rparr>)"
proof -
  have a: "verifyMembershipProof sampleHash sampleMembershipProof" by code_simp
  have b: "(0::nat) < length (path sampleMembershipProof)" by (simp add: sampleMembershipProof_def)
  have c: "''xa'' \<noteq> sibling_hash (path sampleMembershipProof ! 0)"
    by (simp add: sampleMembershipProof_def)
  have d: "Some ''hhhahbhhchd'' \<noteq> rootHash sampleMembershipProof"
    by (simp add: sampleMembershipProof_def)
  note e = sampleHash_inj[of "set (foldInputs sampleHash (leafHash sampleMembershipProof) (path sampleMembershipProof)) \<union>
      set (foldInputs sampleHash (leafHash sampleMembershipProof)
             ((path sampleMembershipProof)
                [0 := (path sampleMembershipProof ! 0)\<lparr>sibling_hash := ''xa''\<rparr>]))"]
  have a0: "verifyMembershipProof sampleHash singleLeafProof" by code_simp
  have b0: "path singleLeafProof = []" by (simp add: singleLeafProof_def)
  have d0: "Some ''hb'' \<noteq> rootHash singleLeafProof" by (simp add: singleLeafProof_def)
  from tamper_detected[OF a, of "Some ''hhhahbhhchd''" 0 "''xa''"] b c d e
  have r1: "\<not> verifyMembershipProof sampleHash (sampleMembershipProof\<lparr>rootHash := Some ''hhhahbhhchd''\<rparr>)"
    and r2: "\<not> verifyMembershipProof sampleHash
        (sampleMembershipProof
           \<lparr>path := (path sampleMembershipProof)
                       [0 := (path sampleMembershipProof ! 0)\<lparr>sibling_hash := ''xa''\<rparr>]\<rparr>)"
    by blast+
  from tamper_detected[OF a0, of "Some ''hb''"] d0
  have r3: "\<not> verifyMembershipProof sampleHash (singleLeafProof\<lparr>rootHash := Some ''hb''\<rparr>)"
    by blast
  from a b c d e a0 b0 d0 r1 r2 r3 show ?thesis by blast
qed

section \<open>Height and statistics of a built tree\<close>

lemma buildTree_height:
  assumes "ks \<noteq> []" "buildTree sha256 ks newMerkleTree = Some (Inr t)" "tree_root t = Some r"
  shows "calculateHeight t (Some r) = Some (ceillog2 (length ks) + 1)"
proof -
  define t1 where "t1 = addLeaves sha256 ks 0 (newMerkleTree\<lparr>leaves := []\<rparr>)"
  note ls = leaves_state[OF t1_def]
  have len: "length (heap t1) = length ks" unfolding ls(1) by simp
  have ne: "leaves t1 \<noteq> []" using assms(1) ls(2) by simp
  have b: "\<forall>c \<in> set (leaves t1). c < length (heap t1)" using ls(2) len by simp
  have h1: "\<forall>c \<in> set (leaves t1). calculateHeight t1 (Some c) = Some 1"
  proof
    fix c assume "c \<in> set (leaves t1)"
    with ls(2) have "c < length ks" by simp
    then have "isLeaf (heap t1 ! c)" unfolding ls(1) by (simp add: leafNode_def)
    then show "calculateHeight t1 (Some c) = Some 1" by (rule calculateHeight_leaf)
  qed
  from buildTreeRecursive_props[OF ne b ls(3,4,5)] obtain r0 t2 where
    r: "buildTreeRecursive sha256 (leaves t1) t1 =
          Some (r0, (if length (leaves t1) = 1 then leaves t1 else padLevel (leaves t1)), t2)"
       "heap_ok sha256 (heap t2)" "r0 < length (heap t2)"
    by blast
  from buildTreeRecursive_height[OF ne b ls(3,4) h1 r(1)] ls(2)
  have h2: "calculateHeight t2 (Some r0) = Some (1 + ceillog2 (length ks))" by simp
  from assms(1,2) r(1) have t: "heap t = heap t2 @ []" "tree_root t = Some r0"
    unfolding buildTree_def t1_def[symmetric] by (auto simp: Let_def)
  with assms(3) have "r = r0" by simp
  with calculateHeight_frame[OF r(2) t(1) r(3)] h2 show ?thesis by simp
qed

lemma buildTree_stats:
  assumes "ks \<noteq> []"
  shows "\<exists>t. buildTree sha256 ks newMerkleTree = Some (Inr t) \<and>
             leaves t = (if length ks = 1 then [0 ..< length ks] else padLevel [0 ..< length ks]) \<and>
             getTreeStats t =
               Some \<lparr>totalNodes = length (nodes t), leafNodes = length (leaves t),
                     treeHeight = ceillog2 (length ks) + 1, stats_rootHash = getRootHash t\<rparr>"
proof -
  from buildTree_props[OF assms, of sha256] obtain t r where
    t: "buildTree sha256 ks newMerkleTree = Some (Inr t)" "tree_root t = Some r"
       "leaves t = (if length ks = 1 then [0 ..< length ks] else padLevel [0 ..< length ks])"
    by blast
  from buildTree_height[OF assms t(1,2)] t(2)
  have "getTreeStats t =
               Some \<lparr>totalNodes = length (nodes t), leafNodes = length (leaves t),
                     treeHeight = ceillog2 (length ks) + 1, stats_rootHash = getRootHash t\<rparr>"
    by (simp add: getTreeStats_def)
  with t show ?thesis by blast
qed

text \<open>
  Claim C8. For every non-empty key list of length \<open>n\<close>, the build returns a tree,
  \<open>getTreeStats\<close> returns (the recursion of \<open>_calculateHeight\<close> ends), and the height it
  reports is \<open>ceil(log2 n) + 1\<close>; that is 1 for \<open>n = 1\<close> and \<open>k + 1\<close> for \<open>n = 2^k\<close>.
  The height is what \<open>_calculateHeight\<close> computes from the root: 1 at a leaf, otherwise one
  more than the larger height of the two children.
\<close>

theorem tree_height:
  assumes "ks \<noteq> []"
  shows "\<exists>t st. buildTree sha256 ks newMerkleTree = Some (Inr t) \<and> getTreeStats t = Some st \<and>
           treeHeight st = nat \<lceil>log 2 (real (length ks))\<rceil> + 1 \<and>
           (length ks = 1 \<longrightarrow> treeHeight st = 1) \<and>
           (\<forall>k. length ks = 2 ^ k \<longrightarrow> treeHeight st = k + 1)"
proof -
  from buildTree_stats[OF assms, of sha256] obtain t where
    t: "buildTree sha256 ks newMerkleTree = Some (Inr t)"
       "getTreeStats t =
               Some \<lparr>totalNodes = length (nodes t), leafNodes = length (leaves t),
                     treeHeight = ceillog2 (length ks) + 1, stats_rootHash = getRootHash t\<rparr>"
    by blast
  let ?st = "\<lparr>totalNodes = length (nodes t), leafNodes = length (leaves t),
              treeHeight = ceillog2 (length ks) + 1, stats_rootHash = getRootHash t\<rparr>"
  from assms have "ceillog2 (length ks) = nat \<lceil>log 2 (real (length ks))\<rceil>"
    by (simp add: ceillog2_def)
  then have a: "treeHeight ?st = nat \<lceil>log 2 (real (length ks))\<rceil> + 1" by simp
  have b: "length ks = 1 \<longrightarrow> treeHeight ?st = 1" by simp
  have c: "\<forall>k. length ks = 2 ^ k \<longrightarrow> treeHeight ?st = k + 1" by simp
  from t a b c show ?thesis by blast
qed

text \<open>The theorem at the keys \<open>a\<close>, \<open>b\<close>, \<open>c\<close>: the height is 3.\<close>

theorem tree_height_witness:
  "[''a'', ''b'', ''c''] \<noteq> [] \<and>
   (\<exists>t st. buildTree sampleHash [''a'', ''b'', ''c''] newMerkleTree = Some (Inr t) \<and>
      getTreeStats t = Some st \<and>
      treeHeight st = nat \<lceil>log 2 (real (length [''a'', ''b'', ''c'']))\<rceil> + 1 \<and>
      treeHeight st = 3)"
proof -
  have ne: "[''a'', ''b'', ''c''] \<noteq> []" by simp
  have s: "getTreeStats sampleTree =
     Some \<lparr>totalNodes = 6, leafNodes = 4, treeHeight = 3, stats_rootHash = Some ''hhhahbhhchc''\<rparr>"
    by code_simp
  from tree_height[OF ne, of sampleHash] obtain t st where
    "buildTree sampleHash [''a'', ''b'', ''c''] newMerkleTree = Some (Inr t)" "getTreeStats t = Some st"
    "treeHeight st = nat \<lceil>log 2 (real (length [''a'', ''b'', ''c'']))\<rceil> + 1" by blast
  with s sampleTree_built show ?thesis by (intro conjI ne exI[of _ t] exI[of _ st]) auto
qed

section \<open>The leaf array after a build\<close>

text \<open>
  What the build leaves in \<open>leaves\<close> and in the leaf nodes, for every non-empty key list of
  length \<open>n\<close>: the first \<open>n\<close> entries of \<open>leaves\<close> are the leaves in insertion order, the
  \<open>i\<close>-th with hash \<open>H(keys[i])\<close> and payload \<open>(keys[i], i)\<close>; the array has \<open>n\<close> entries
  when \<open>n\<close> is even or 1, and \<open>n + 1\<close> when \<open>n\<close> is odd and at least 3.
\<close>

theorem leaf_sequence_after_build:
  assumes "ks \<noteq> []"
  shows "\<exists>t st. buildTree sha256 ks newMerkleTree = Some (Inr t) \<and> getTreeStats t = Some st \<and>
           take (length ks) (leaves t) = [0 ..< length ks] \<and>
           (\<forall>i < length ks. isLeaf (heap t ! i) \<and> hash (heap t ! i) = sha256 (ks ! i) \<and>
                              data (heap t ! i) = Some (ks ! i, i)) \<and>
           leafNodes st = (if odd (length ks) \<and> length ks \<noteq> 1 then length ks + 1 else length ks)"
proof -
  from buildTree_props[OF assms, of sha256] obtain t r where
    t: "buildTree sha256 ks newMerkleTree = Some (Inr t)"
       "leaves t = (if length ks = 1 then [0 ..< length ks] else padLevel [0 ..< length ks])"
       "\<forall>j < length ks. heap t ! j = leafNode sha256 (ks ! j) j"
    by blast
  from buildTree_stats[OF assms, of sha256] t(1) have
    st: "getTreeStats t =
               Some \<lparr>totalNodes = length (nodes t), leafNodes = length (leaves t),
                     treeHeight = ceillog2 (length ks) + 1, stats_rootHash = getRootHash t\<rparr>"
    by auto
  have a: "take (length ks) (leaves t) = [0 ..< length ks]"
    using t(2) by (simp add: padLevel_def)
  have b: "\<forall>i < length ks. isLeaf (heap t ! i) \<and> hash (heap t ! i) = sha256 (ks ! i) \<and>
                              data (heap t ! i) = Some (ks ! i, i)"
    using t(3) by (simp add: leafNode_def)
  let ?st = "\<lparr>totalNodes = length (nodes t), leafNodes = length (leaves t),
              treeHeight = ceillog2 (length ks) + 1, stats_rootHash = getRootHash t\<rparr>"
  have c: "leafNodes ?st = (if odd (length ks) \<and> length ks \<noteq> 1 then length ks + 1 else length ks)"
    using t(2) by (auto simp: padLevel_def odd_iff_mod_2_eq_one)
  from t(1) st a b c show ?thesis by blast
qed

text \<open>The theorem at the keys \<open>a\<close>, \<open>b\<close>, \<open>c\<close>.\<close>

theorem leaf_sequence_after_build_witness:
  "[''a'', ''b'', ''c''] \<noteq> [] \<and>
   (\<exists>t st. buildTree sampleHash [''a'', ''b'', ''c''] newMerkleTree = Some (Inr t) \<and>
      getTreeStats t = Some st \<and> take 3 (leaves t) = [0, 1, 2] \<and> leafNodes st = 4)"
proof -
  have ne: "[''a'', ''b'', ''c''] \<noteq> []" by simp
  from leaf_sequence_after_build[OF ne, of sampleHash] obtain t st where
    "buildTree sampleHash [''a'', ''b'', ''c''] newMerkleTree = Some (Inr t)"
    "getTreeStats t = Some st"
    "take (length [''a'', ''b'', ''c'']) (leaves t) = [0 ..< length [''a'', ''b'', ''c'']]"
    "leafNodes st = (if odd (length [''a'', ''b'', ''c'']) \<and> length [''a'', ''b'', ''c''] \<noteq> 1
                     then length [''a'', ''b'', ''c''] + 1 else length [''a'', ''b'', ''c''])"
    by blast
  moreover have "[0 ..< length [''a'', ''b'', ''c'']] = [0, 1, 2]" by code_simp
  ultimately show ?thesis using ne
    by (intro conjI ne exI[of _ t] exI[of _ st]) (simp_all add: numeral_3_eq_3)
qed

text \<open>
  Claim C3 fails on the code for an odd number of keys. The build of any three keys leaves
  four entries in \<open>leaves\<close>, the last leaf twice, and \<open>getTreeStats\<close> reports
  \<open>leafNodes = 4\<close>: the padding \<open>push\<close> of \<open>_buildTreeRecursive\<close> writes into the array it
  was given, and \<open>buildTree\<close> gives it \<open>this.leaves\<close> itself.
\<close>

theorem odd_build_duplicates_last_leaf:
  "\<exists>t st. buildTree sha256 [k0, k1, k2] newMerkleTree = Some (Inr t) \<and>
          leaves t = [0, 1, 2, 2] \<and> getTreeStats t = Some st \<and> leafNodes st = 4"
proof -
  have ne: "[k0, k1, k2] \<noteq> []" by simp
  have pl: "padLevel [0 ..< 3] = [0, 1, 2, 2]" by code_simp
  from buildTree_stats[OF ne, of sha256] pl show ?thesis
    by (auto simp: numeral_3_eq_3)
qed

section \<open>The registry: initialisation and verification\<close>

lemma registerUser_keys:
  "length (fst (foldl (registerUser sha256 gen) acc xs)) = length (fst acc) + length xs"
  by (induction xs arbitrary: acc) (simp_all add: registerUser_def Let_def)

text \<open>
  What holds of \<open>initializeSystem\<close> on an integer count: it fails with the range error
  exactly when the count is below 2 or above 32, and then the state of the system (tree,
  user map, last proof) is the state before the call; with a count from 2 to 32 it returns
  a result and throws nothing.
\<close>

theorem initialize_range:
  "(n < 2 \<or> n > 32 \<longrightarrow>
      initializeSystem sha256 gen (Num n) s = Some (Inl RangeError, s)) \<and>
   (2 \<le> n \<and> n \<le> 32 \<longrightarrow>
      (\<exists>res s'. initializeSystem sha256 gen (Num n) s = Some (Inr res, s')))"
proof (intro conjI impI)
  assume "n < 2 \<or> n > 32"
  then show "initializeSystem sha256 gen (Num n) s = Some (Inl RangeError, s)"
    by (auto simp: initializeSystem_def)
next
  assume r: "2 \<le> n \<and> n \<le> 32"
  obtain pks keys where f:
    "foldl (registerUser sha256 gen) ([], []) [0 ..< nat n] = (pks, keys)" by force
  from registerUser_keys[of sha256 gen "([], [])" "[0 ..< nat n]"] f r
  have "length pks = nat n" by simp
  with r have ne: "pks \<noteq> []" by auto
  from buildTree_stats[OF ne, of sha256] obtain t st where
    "buildTree sha256 pks newMerkleTree = Some (Inr t)" "getTreeStats t = Some st" by blast
  with r f show "\<exists>res s'. initializeSystem sha256 gen (Num n) s = Some (Inr res, s')"
    by (simp add: initializeSystem_def)
qed

text \<open>The theorem at the counts 1 and 3, from a system that is initialised.\<close>

theorem initialize_range_witness:
  "((1::int) < 2 \<or> (1::int) > 32) \<and>
   initializeSystem sampleHash sampleKeyGen (Num 1) sampleSystem =
     Some (Inl RangeError, sampleSystem) \<and>
   ((2::int) \<le> 3 \<and> (3::int) \<le> 32) \<and>
   (\<exists>res s'. initializeSystem sampleHash sampleKeyGen (Num 3) sampleSystem = Some (Inr res, s'))"
  using initialize_range[of 1 sampleHash sampleKeyGen sampleSystem]
        initialize_range[of 3 sampleHash sampleKeyGen sampleSystem]
  by simp

text \<open>
  Claim C9 fails on the code at the count \<open>NaN\<close>. \<open>NaN\<close> is neither below 2 nor above 32,
  so the range check lets it pass; the loop does not run; the user map is cleared and an
  empty tree is stored; then \<open>buildTree\<close> throws on the empty key list. The call fails
  outside the stated condition, and the state after it is not the state before: on the
  sample system the three users and the built tree are gone.
\<close>

theorem initialize_nan_mutates:
  "\<not> (num_less NaN 2 \<or> num_greater NaN 32) \<and>
   initializeSystem sha256 gen NaN s =
     Some (Inl RangeError, s\<lparr>userKeys := [], merkleTree := Some newMerkleTree\<rparr>) \<and>
   initializeSystem sampleHash sampleKeyGen NaN sampleSystem =
     Some (Inl RangeError,
           \<lparr>merkleTree = Some newMerkleTree, userKeys = [], currentProof = None\<rparr>) \<and>
   \<lparr>merkleTree = Some newMerkleTree, userKeys = [], currentProof = None\<rparr> \<noteq> sampleSystem"
  by (simp add: initializeSystem_def buildTree_def sampleSystem_def)

text \<open>
  The state such a failed call leaves has a tree object and no tree built: there
  \<open>generateZKProof\<close> finds no user and fails with the not-found error, not with the state
  error.
\<close>

lemma generateZKProof_after_failed_initialize:
  "generateZKProof sha256 salt clock idx (s\<lparr>userKeys := [], merkleTree := Some newMerkleTree\<rparr>) =
     Some (Inl NotFoundError, s\<lparr>userKeys := [], merkleTree := Some newMerkleTree\<rparr>)"
  by (simp add: generateZKProof_def)

text \<open>
  Claim C4 fails on the code for \<open>verifyZKProof\<close>. On the new system, where no tree has
  been built, \<open>generateZKProof\<close> raises the state error and leaves the state as it was;
  \<open>verifyZKProof\<close> has no such check: with the sample bundle it reads a method of the
  missing tree, the fault is caught inside, and the call returns a report with the one
  failed step of the verification process. It raises nothing to its caller.
\<close>

theorem verify_before_init_returns_report:
  "merkleTree newZKProofSystem = None \<and>
   generateZKProof sampleHash ''r'' sampleClock 1 newZKProofSystem =
     Some (Inl StateError, newZKProofSystem) \<and>
   verifyZKProof sampleHash 2000 newZKProofSystem (Some sampleBundle) =
     Inr \<lparr>isValid = False,
           verificationSteps = [\<lparr>step = ProcessStep, result = False\<rparr>],
           summary = \<lparr>totalSteps = 1, passedSteps = 0, finalResult = False\<rparr>\<rparr> \<and>
   verifyZKProof sampleHash 2000 newZKProofSystem (Some sampleBundle) \<noteq> Inl StateError"
  by (simp add: generateZKProof_def verifyZKProof_def runVerification_def newZKProofSystem_def)

text \<open>
  Claim C5. On a system with a tree, for every bundle, \<open>verifyZKProof\<close> returns a report
  with exactly the four steps membership, challenge, response, timestamp in this order;
  each step holds the result of its own check whatever the earlier checks gave, and the
  report is valid exactly when all four results are true. When all four are true and only
  the response hash of the bundle is replaced by a different string, step 3 becomes false
  and steps 1, 2 and 4 are reported true.
\<close>

theorem four_steps_always:
  assumes "merkleTree s = Some t"
      and "m = verifyMembershipProof sha256 (membershipProof zk)"
      and "c = (generateChallenge sha256 (commitment zk) (membershipProof zk) = challenge zk)"
      and "r = verifyResponse sha256 zk"
      and "f = verifyTimestamp now (timestamp zk)"
  shows "verifyZKProof sha256 now s (Some zk) =
           Inr \<lparr>isValid = (m \<and> c \<and> r \<and> f),
                 verificationSteps =
                   [\<lparr>step = MembershipStep, result = m\<rparr>,
                    \<lparr>step = ChallengeStep, result = c\<rparr>,
                    \<lparr>step = ResponseStep, result = r\<rparr>,
                    \<lparr>step = TimestampStep, result = f\<rparr>],
                 summary = \<lparr>totalSteps = 4, passedSteps = length (filter id [m, c, r, f]),
                            finalResult = (m \<and> c \<and> r \<and> f)\<rparr>\<rparr> \<and>
         (m \<and> c \<and> r \<and> f \<and> h' \<noteq> response_hash (response zk) \<longrightarrow>
            verifyZKProof sha256 now s
              (Some (zk\<lparr>response := (response zk)\<lparr>response_hash := h'\<rparr>\<rparr>)) =
              Inr \<lparr>isValid = False,
                    verificationSteps =
                      [\<lparr>step = MembershipStep, result = True\<rparr>,
                       \<lparr>step = ChallengeStep, result = True\<rparr>,
                       \<lparr>step = ResponseStep, result = False\<rparr>,
                       \<lparr>step = TimestampStep, result = True\<rparr>],
                    summary = \<lparr>totalSteps = 4, passedSteps = 3, finalResult = False\<rparr>\<rparr>)"
proof (intro conjI impI)
  show "verifyZKProof sha256 now s (Some zk) =
           Inr \<lparr>isValid = (m \<and> c \<and> r \<and> f),
                 verificationSteps =
                   [\<lparr>step = MembershipStep, result = m\<rparr>,
                    \<lparr>step = ChallengeStep, result = c\<rparr>,
                    \<lparr>step = ResponseStep, result = r\<rparr>,
                    \<lparr>step = TimestampStep, result = f\<rparr>],
                 summary = \<lparr>totalSteps = 4, passedSteps = length (filter id [m, c, r, f]),
                            finalResult = (m \<and> c \<and> r \<and> f)\<rparr>\<rparr>"
    using assms by (simp add: verifyZKProof_def runVerification_def Let_def)
next
  assume a: "m \<and> c \<and> r \<and> f \<and> h' \<noteq> response_hash (response zk)"
  let ?b = "zk\<lparr>response := (response zk)\<lparr>response_hash := h'\<rparr>\<rparr>"
  from a assms(4) have "\<not> verifyResponse sha256 ?b"
    by (auto simp: verifyResponse_def Let_def)
  moreover from a assms(2,3,5) have "verifyMembershipProof sha256 (membershipProof ?b)"
    "generateChallenge sha256 (commitment ?b) (membershipProof ?b) = challenge ?b"
    "verifyTimestamp now (timestamp ?b)" by simp_all
  ultimately show "verifyZKProof sha256 now s (Some ?b) =
              Inr \<lparr>isValid = False,
                    verificationSteps =
                      [\<lparr>step = MembershipStep, result = True\<rparr>,
                       \<lparr>step = ChallengeStep, result = True\<rparr>,
                       \<lparr>step = ResponseStep, result = False\<rparr>,
                       \<lparr>step = TimestampStep, result = True\<rparr>],
                    summary = \<lparr>totalSteps = 4, passedSteps = 3, finalResult = False\<rparr>\<rparr>"
    using assms(1) by (simp add: verifyZKProof_def runVerification_def Let_def)
qed

text \<open>The sample bundle is the one \<open>generateZKProof\<close> makes on the sample system.\<close>

lemma sampleBundle_generated:
  "generateZKProof sampleHash ''r'' sampleClock 1 sampleSystem =
     Some (Inr (sampleBundle,
                \<lparr>commitmentHash = ''hbr...'', challengeHash = ''hhbrhhha...'',
                 responseHash = ''hrhhbrhh...'', pathLength = 2,
                 summary_rootHash = ''hhhahbhh...''\<rparr>),
           sampleSystem\<lparr>currentProof := Some sampleBundle\<rparr>)"
  by code_simp

lemma sampleBundle_checks:
  "verifyMembershipProof sampleHash (membershipProof sampleBundle)"
  "generateChallenge sampleHash (commitment sampleBundle) (membershipProof sampleBundle) = challenge sampleBundle"
  "verifyResponse sampleHash sampleBundle"
  "verifyTimestamp 2000 (timestamp sampleBundle)"
  by code_simp+

text \<open>The theorem at the sample system and bundle, at time 2000, with the response hash \<open>x\<close>.\<close>

theorem four_steps_always_witness:
  "merkleTree sampleSystem = Some sampleTree \<and>
   verifyMembershipProof sampleHash (membershipProof sampleBundle) \<and>
   generateChallenge sampleHash (commitment sampleBundle) (membershipProof sampleBundle) = challenge sampleBundle \<and>
   verifyResponse sampleHash sampleBundle \<and>
   verifyTimestamp 2000 (timestamp sampleBundle) \<and>
   ''x'' \<noteq> response_hash (response sampleBundle) \<and>
   verifyZKProof sampleHash 2000 sampleSystem (Some sampleBundle) =
     Inr \<lparr>isValid = True,
           verificationSteps =
             [\<lparr>step = MembershipStep, result = True\<rparr>,
              \<lparr>step = ChallengeStep, result = True\<rparr>,
              \<lparr>step = ResponseStep, result = True\<rparr>,
              \<lparr>step = TimestampStep, result = True\<rparr>],
           summary = \<lparr>totalSteps = 4, passedSteps = 4, finalResult = True\<rparr>\<rparr> \<and>
   verifyZKProof sampleHash 2000 sampleSystem
     (Some (sampleBundle\<lparr>response := (response sampleBundle)\<lparr>response_hash := ''x''\<rparr>\<rparr>)) =
     Inr \<lparr>isValid = False,
           verificationSteps =
             [\<lparr>step = MembershipStep, result = True\<rparr>,
              \<lparr>step = ChallengeStep, result = True\<rparr>,
              \<lparr>step = ResponseStep, result = False\<rparr>,
              \<lparr>step = TimestampStep, result = True\<rparr>],
           summary = \<lparr>totalSteps = 4, passedSteps = 3, finalResult = False\<rparr>\<rparr>"
proof -
  have t: "merkleTree sampleSystem = Some sampleTree" by (simp add: sampleSystem_def)
  have x: "''x'' \<noteq> response_hash (response sampleBundle)" by (simp add: sampleBundle_def)
  let ?m = "verifyMembershipProof sampleHash (membershipProof sampleBundle)"
  let ?c = "generateChallenge sampleHash (commitment sampleBundle) (membershipProof sampleBundle) =
            challenge sampleBundle"
  let ?r = "verifyResponse sampleHash sampleBundle"
  let ?f = "verifyTimestamp 2000 (timestamp sampleBundle)"
  have "verifyZKProof sampleHash 2000 sampleSystem (Some sampleBundle) =
           Inr \<lparr>isValid = (?m \<and> ?c \<and> ?r \<and> ?f),
                 verificationSteps =
                   [\<lparr>step = MembershipStep, result = ?m\<rparr>,
                    \<lparr>step = ChallengeStep, result = ?c\<rparr>,
                    \<lparr>step = ResponseStep, result = ?r\<rparr>,
                    \<lparr>step = TimestampStep, result = ?f\<rparr>],
                 summary = \<lparr>totalSteps = 4, passedSteps = length (filter id [?m, ?c, ?r, ?f]),
                            finalResult = (?m \<and> ?c \<and> ?r \<and> ?f)\<rparr>\<rparr> \<and>
         (?m \<and> ?c \<and> ?r \<and> ?f \<and> ''x'' \<noteq> response_hash (response sampleBundle) \<longrightarrow>
            verifyZKProof sampleHash 2000 sampleSystem
              (Some (sampleBundle\<lparr>response := (response sampleBundle)\<lparr>response_hash := ''x''\<rparr>\<rparr>)) =
              Inr \<lparr>isValid = False,
                    verificationSteps =
                      [\<lparr>step = MembershipStep, result = True\<rparr>,
                       \<lparr>step = ChallengeStep, result = True\<rparr>,
                       \<lparr>step = ResponseStep, result = False\<rparr>,
                       \<lparr>step = TimestampStep, result = True\<rparr>],
                    summary = \<lparr>totalSteps = 4, passedSteps = 3, finalResult = False\<rparr>\<rparr>)"
    by (rule four_steps_always[OF t refl refl refl refl])
  with sampleBundle_checks t x show ?thesis by simp
qed

text \<open>
  Claim C7. The freshness check passes exactly when the current time minus the timestamp
  is at most 5 minutes (300000 ms): a timestamp 1 ms older than the window fails, one 1 ms
  inside it passes. Step 4 of the report of \<open>verifyZKProof\<close> is this check on the
  timestamp of the bundle.
\<close>

theorem freshness_window:
  "(verifyTimestamp now ts \<longleftrightarrow> now - ts \<le> 5 * 60 * 1000) \<and>
   \<not> verifyTimestamp now (now - 5 * 60 * 1000 - 1) \<and>
   verifyTimestamp now (now - 5 * 60 * 1000 + 1) \<and>
   map_sum id (\<lambda>rep. verificationSteps rep ! 3)
     (verifyZKProof sha256 now (s\<lparr>merkleTree := Some t\<rparr>) (Some zk)) =
     Inr \<lparr>step = TimestampStep, result = (now - timestamp zk \<le> 5 * 60 * 1000)\<rparr>"
  by (simp add: verifyTimestamp_def verifyZKProof_def runVerification_def Let_def)

section \<open>The example of three keys\<close>

lemma findParent_unique:
  assumes "\<forall>(h, n) \<in> set (nodes t). n < length (heap t)"
      and "(h, p) \<in> set (nodes t)"
      and "is_parent_of (heap t) p c"
      and "\<forall>q < length (heap t). is_parent_of (heap t) q c \<longrightarrow> q = p"
  shows "findParent t c = Some p"
proof -
  let ?P = "\<lambda>(h, n). (left (heap t ! n) = Some c \<or> right (heap t ! n) = Some c) \<and> \<not> isLeaf (heap t ! n)"
  from assms(3) have "?P (h, p)" by (simp add: is_parent_of_def)
  with assms(2) have "find ?P (nodes t) \<noteq> None" unfolding find_None_iff by blast
  then obtain h' q where f: "find ?P (nodes t) = Some (h', q)" by auto
  then have "(h', q) \<in> set (nodes t)" and "?P (h', q)"
    unfolding find_Some_iff by (auto simp: in_set_conv_nth)
  with assms(1) have "q < length (heap t)" "is_parent_of (heap t) q c"
    by (auto simp: is_parent_of_def)
  with assms(4) have "q = p" by blast
  with f show ?thesis by (simp add: findParent_def)
qed

lemma three_keys_built:
  "buildTree sha256 [k0, k1, k2] newMerkleTree =
     Some (Inr \<lparr>heap =
                  [\<lparr>hash = sha256 k0, left = None, right = None, isLeaf = True, data = Some (k0, 0)\<rparr>,
                   \<lparr>hash = sha256 k1, left = None, right = None, isLeaf = True, data = Some (k1, 1)\<rparr>,
                   \<lparr>hash = sha256 k2, left = None, right = None, isLeaf = True, data = Some (k2, 2)\<rparr>,
                   \<lparr>hash = sha256 (sha256 k0 @ sha256 k1), left = Some 0, right = Some 1,
                      isLeaf = False, data = None\<rparr>,
                   \<lparr>hash = sha256 (sha256 k2 @ sha256 k2), left = Some 2, right = Some 2,
                      isLeaf = False, data = None\<rparr>,
                   \<lparr>hash = sha256 (sha256 (sha256 k0 @ sha256 k1) @ sha256 (sha256 k2 @ sha256 k2)),
                      left = Some 3, right = Some 4, isLeaf = False, data = None\<rparr>],
                tree_root = Some 5, leaves = [0, 1, 2, 2],
                nodes =
                  AList.update (sha256 (sha256 (sha256 k0 @ sha256 k1) @ sha256 (sha256 k2 @ sha256 k2))) 5
                    (AList.update (sha256 (sha256 k2 @ sha256 k2)) 4
                      (AList.update (sha256 (sha256 k0 @ sha256 k1)) 3
                        (AList.update (sha256 k2) 2
                          (AList.update (sha256 k1) 1
                            (AList.update (sha256 k0) 0 [])))))\<rparr>)"
  by (simp add: buildTree_def newMerkleTree_def addLeaf_def addParent_def new_node_def
      buildTreeRecursive.simps padLevel_def generateUserId_def combineHashes_def Let_def
      del: AList.update.simps)
     (simp add: eval_nat_numeral del: AList.update.simps)

text \<open>
  Claim C2, as amended. The build of the keys \<open>k0\<close>, \<open>k1\<close>, \<open>k2\<close> makes the leaf nodes
  \<open>L0\<close>, \<open>L1\<close>, \<open>L2\<close> with \<open>Li = H(ki)\<close>, pairs the last node of the odd level with itself,
  and makes the parents \<open>P0 = H(L0 @ L1)\<close>, \<open>P1 = H(L2 @ L2)\<close> and the root
  \<open>R = H(P0 @ P1)\<close>. When \<open>L0\<close> differs from \<open>L1\<close>, and \<open>P0\<close> differs from \<open>P1\<close> and from
  \<open>R\<close>, the proof generated for \<open>k1\<close> has the leaf hash \<open>L1\<close> and exactly the path: \<open>L0\<close> on
  the left at level 0, then \<open>P1\<close> on the right at level 1. Verification folds it as
  \<open>H(L0 @ L1)\<close>, then \<open>H\<close> of that and \<open>P1\<close>, and accepts.
\<close>

theorem three_key_example:
  assumes "L0 = sha256 k0" "L1 = sha256 k1" "L2 = sha256 k2"
      and "P0 = sha256 (L0 @ L1)" "P1 = sha256 (L2 @ L2)" "R = sha256 (P0 @ P1)"
      and "L0 \<noteq> L1" "P0 \<noteq> P1" "P0 \<noteq> R"
  shows "\<exists>t mp. buildTree sha256 [k0, k1, k2] newMerkleTree = Some (Inr t) \<and>
           heap t =
             [\<lparr>hash = L0, left = None, right = None, isLeaf = True, data = Some (k0, 0)\<rparr>,
              \<lparr>hash = L1, left = None, right = None, isLeaf = True, data = Some (k1, 1)\<rparr>,
              \<lparr>hash = L2, left = None, right = None, isLeaf = True, data = Some (k2, 2)\<rparr>,
              \<lparr>hash = P0, left = Some 0, right = Some 1, isLeaf = False, data = None\<rparr>,
              \<lparr>hash = P1, left = Some 2, right = Some 2, isLeaf = False, data = None\<rparr>,
              \<lparr>hash = R, left = Some 3, right = Some 4, isLeaf = False, data = None\<rparr>] \<and>
           tree_root t = Some 5 \<and> getRootHash t = Some R \<and>
           generateMembershipProof sha256 t k1 = Some (Inr mp) \<and>
           leafHash mp = L1 \<and> leafIndex mp = 1 \<and> rootHash mp = Some R \<and>
           path mp = [\<lparr>sibling_hash = L0, isLeft = True, level = 0\<rparr>,
                      \<lparr>sibling_hash = P1, isLeft = False, level = 1\<rparr>] \<and>
           foldPath sha256 (leafHash mp) (path mp) = sha256 (sha256 (L0 @ L1) @ P1) \<and>
           verifyMembershipProof sha256 mp"
proof -
  define nd where "nd =
     AList.update R (5::nat) (AList.update P1 4 (AList.update P0 3
       (AList.update L2 2 (AList.update L1 1 (AList.update L0 0 [])))))"
  define hp where "hp =
             [\<lparr>hash = L0, left = None, right = None, isLeaf = True, data = Some (k0, 0::nat)\<rparr>,
              \<lparr>hash = L1, left = None, right = None, isLeaf = True, data = Some (k1, 1)\<rparr>,
              \<lparr>hash = L2, left = None, right = None, isLeaf = True, data = Some (k2, 2)\<rparr>,
              \<lparr>hash = P0, left = Some 0, right = Some 1, isLeaf = False, data = None\<rparr>,
              \<lparr>hash = P1, left = Some 2, right = Some 2, isLeaf = False, data = None\<rparr>,
              \<lparr>hash = R, left = Some 3, right = Some 4, isLeaf = False, data = None\<rparr>]"
  define t where "t = \<lparr>heap = hp, tree_root = Some 5, leaves = [0, 1, 2, 2], nodes = nd\<rparr>"
  have bt: "buildTree sha256 [k0, k1, k2] newMerkleTree = Some (Inr t)"
    unfolding t_def hp_def nd_def assms(1-6) by (rule three_keys_built)
  have f: "heap t = hp" "tree_root t = Some 5" "leaves t = [0, 1, 2, 2]" "nodes t = nd"
    by (simp_all add: t_def)
  have len: "length (heap t) = 6" by (simp add: f hp_def)
  have valid: "\<forall>(h, n) \<in> set (nodes t). n < length (heap t)"
  proof clarify
    fix h n assume "(h, n) \<in> set (nodes t)"
    then have "n \<in> {0, 1, 2, 3, 4, 5}"
      unfolding f nd_def by (auto dest!: update_mem_cases simp del: AList.update.simps)
    with len show "n < length (heap t)" by auto
  qed
  have in3: "(P0, 3) \<in> set (nodes t)"
    unfolding f nd_def using assms(8,9)
    by (intro update_mem_other update_mem_same) auto
  have in5: "(R, 5) \<in> set (nodes t)"
    unfolding f nd_def by (rule update_mem_same)
  have cases6: "q \<in> {0, 1, 2, 3, 4, 5}" if "q < length (heap t)" for q
    using that len by auto
  have fp1: "findParent t 1 = Some 3"
  proof (rule findParent_unique[OF valid in3])
    show "is_parent_of (heap t) 3 1" by (simp add: is_parent_of_def f hp_def)
    show "\<forall>q<length (heap t). is_parent_of (heap t) q 1 \<longrightarrow> q = 3"
    proof (intro allI impI)
      fix q assume q: "q < length (heap t)" "is_parent_of (heap t) q 1"
      from cases6[OF q(1)] q(2) show "q = 3"
        by (auto simp: is_parent_of_def f hp_def)
    qed
  qed
  have fp3: "findParent t 3 = Some 5"
  proof (rule findParent_unique[OF valid in5])
    show "is_parent_of (heap t) 5 3" by (simp add: is_parent_of_def f hp_def)
    show "\<forall>q<length (heap t). is_parent_of (heap t) q 3 \<longrightarrow> q = 5"
    proof (intro allI impI)
      fix q assume q: "q < length (heap t)" "is_parent_of (heap t) q 3"
      from cases6[OF q(1)] q(2) show "q = 5"
        by (auto simp: is_parent_of_def f hp_def)
    qed
  qed
  have w: "walkToRoot t 1 [] =
             Some (Inr [\<lparr>sibling_hash = L0, isLeft = True, level = 0\<rparr>,
                        \<lparr>sibling_hash = P1, isLeft = False, level = 1\<rparr>])"
  proof -
    have w5: "walkToRoot t 5 pth = Some (Inr pth)" for pth
      by (subst walkToRoot.simps) (simp add: f)
    have w3: "walkToRoot t 3 pth =
                walkToRoot t 5 (pth @ [\<lparr>sibling_hash = P1, isLeft = False, level = length pth\<rparr>])" for pth
      using fp3 by (subst walkToRoot.simps) (simp add: f hp_def)
    have w1: "walkToRoot t 1 pth =
                walkToRoot t 3 (pth @ [\<lparr>sibling_hash = L0, isLeft = True, level = length pth\<rparr>])" for pth
      using fp1 by (subst walkToRoot.simps) (simp add: f hp_def)
    show ?thesis unfolding w1 w3 w5 by simp
  qed
  have lf: "find (\<lambda>l. hash (heap t ! l) = generateUserId sha256 k1) (leaves t) = Some 1"
    using assms(7) by (simp add: f hp_def generateUserId_def assms(1,2))
  let ?mp = "\<lparr>leafHash = L1, leafIndex = 1,
              path = [\<lparr>sibling_hash = L0, isLeft = True, level = 0\<rparr>,
                      \<lparr>sibling_hash = P1, isLeft = False, level = 1\<rparr>],
              rootHash = Some R\<rparr>"
  have rh: "getRootHash t = Some R" by (simp add: getRootHash_def f hp_def)
  have g: "generateMembershipProof sha256 t k1 = Some (Inr ?mp)"
    using lf w rh by (simp add: generateMembershipProof_def Let_def generateUserId_def assms(2) f hp_def)
  have fo: "foldPath sha256 L1 [\<lparr>sibling_hash = L0, isLeft = True, level = 0\<rparr>,
                      \<lparr>sibling_hash = P1, isLeft = False, level = 1\<rparr>] = sha256 (sha256 (L0 @ L1) @ P1)"
    by (simp add: combineStep_def combineHashes_def)
  have v: "verifyMembershipProof sha256 ?mp"
    using fo assms(4,6) by (simp add: verifyMembershipProof_def)
  from bt f(1,2) rh g fo v show ?thesis
    unfolding hp_def by (intro exI[of _ t] exI[of _ ?mp]) simp
qed

text \<open>The theorem at the keys \<open>a\<close>, \<open>b\<close>, \<open>c\<close> under the sample hash.\<close>

theorem three_key_example_witness:
  "''ha'' = sampleHash ''a'' \<and> ''hb'' = sampleHash ''b'' \<and> ''hc'' = sampleHash ''c'' \<and>
   ''hhahb'' = sampleHash (''ha'' @ ''hb'') \<and> ''hhchc'' = sampleHash (''hc'' @ ''hc'') \<and>
   ''hhhahbhhchc'' = sampleHash (''hhahb'' @ ''hhchc'') \<and>
   ''ha'' \<noteq> ''hb'' \<and> ''hhahb'' \<noteq> ''hhchc'' \<and> ''hhahb'' \<noteq> ''hhhahbhhchc'' \<and>
   (\<exists>t mp. buildTree sampleHash [''a'', ''b'', ''c''] newMerkleTree = Some (Inr t) \<and>
      generateMembershipProof sampleHash t ''b'' = Some (Inr mp) \<and>
      path mp = [\<lparr>sibling_hash = ''ha'', isLeft = True, level = 0\<rparr>,
                 \<lparr>sibling_hash = ''hhchc'', isLeft = False, level = 1\<rparr>] \<and>
      rootHash mp = Some ''hhhahbhhchc'' \<and>
      verifyMembershipProof sampleHash mp)"
proof -
  have h: "''ha'' = sampleHash ''a''" "''hb'' = sampleHash ''b''" "''hc'' = sampleHash ''c''"
    "''hhahb'' = sampleHash (''ha'' @ ''hb'')" "''hhchc'' = sampleHash (''hc'' @ ''hc'')"
    "''hhhahbhhchc'' = sampleHash (''hhahb'' @ ''hhchc'')"
    by (simp_all add: sampleHash_def)
  have d: "''ha'' \<noteq> ''hb''" "''hhahb'' \<noteq> ''hhchc''" "''hhahb'' \<noteq> ''hhhahbhhchc''" by simp_all
  from three_key_example[OF h d] obtain t mp where
    "buildTree sampleHash [''a'', ''b'', ''c''] newMerkleTree = Some (Inr t)"
    "generateMembershipProof sampleHash t ''b'' = Some (Inr mp)"
    "path mp = [\<lparr>sibling_hash = ''ha'', isLeft = True, level = 0\<rparr>,
                 \<lparr>sibling_hash = ''hhchc'', isLeft = False, level = 1\<rparr>]"
    "rootHash mp = Some ''hhhahbhhchc''"
    "verifyMembershipProof sampleHash mp" by blast
  with h d show ?thesis by blast
qed

text \<open>
  Claim C2 as stated, for any three keys, fails. With the keys \<open>a\<close>, \<open>a\<close>, \<open>b\<close> the leaf
  is looked up by its hash, so the proof asked for the second key is the proof of the
  first leaf: its first step has the sibling on the right, not on the left.
\<close>

theorem equal_keys_change_the_path:
  "proveAfterBuild sampleHash [''a'', ''a'', ''b''] ''a'' =
     Some (Inr \<lparr>leafHash = ''ha'', leafIndex = 0,
                path = [\<lparr>sibling_hash = ''ha'', isLeft = False, level = 0\<rparr>,
                        \<lparr>sibling_hash = ''hhbhb'', isLeft = False, level = 1\<rparr>],
                rootHash = Some ''hhhahahhbhb''\<rparr>) \<and>
   [\<lparr>sibling_hash = ''ha'', isLeft = False, level = 0\<rparr>,
    \<lparr>sibling_hash = ''hhbhb'', isLeft = False, level = 1\<rparr>] \<noteq>
   [\<lparr>sibling_hash = sampleHash ''a'', isLeft = True, level = 0\<rparr>,
    \<lparr>sibling_hash = sampleHash (sampleHash ''b'' @ sampleHash ''b''), isLeft = False, level = 1\<rparr>]"
  by code_simp

end
